theory Spec2Isabelle
  imports Complex_Main "HOL-Library.AList" "HOL-Library.Sublist"
begin

section \<open>Values of the face detector (src/src/FaceDetector.tsx)\<close>

text \<open>
  Conventions of the embedding.
  \<^item> A JavaScript number is modelled by the real number it denotes (\<open>NaN\<close> and the
    infinities are left out: an expression probability lies in \<open>[0, 1]\<close> and an age is a
    non-negative number); a number that may be missing (\<open>undefined\<close>) is a \<open>real option\<close>.
    A decimal literal stands for the number it writes; the double nearest to it rounds
    the same way in the examples used here.
  \<^item> A JavaScript string is a \<open>string\<close> holding the UTF-8 bytes of the source text.
  \<^item> An object whose property order matters (\<open>Object.entries\<close>) is an association list
    in property order.
\<close>

subsection \<open>Strings of the source that are not ASCII\<close>

definition emoji_neutral :: string where
  "emoji_neutral = [CHR 0xF0, CHR 0x9F, CHR 0x98, CHR 0x90]"  \<comment> \<open>U+1F610\<close>

definition emoji_happy :: string where
  "emoji_happy = [CHR 0xF0, CHR 0x9F, CHR 0x98, CHR 0x80]"  \<comment> \<open>U+1F600, the grinning face\<close>

definition emoji_sad :: string where
  "emoji_sad = [CHR 0xF0, CHR 0x9F, CHR 0x98, CHR 0x94]"  \<comment> \<open>U+1F614\<close>

definition emoji_angry :: string where
  "emoji_angry = [CHR 0xF0, CHR 0x9F, CHR 0x98, CHR 0xA0]"  \<comment> \<open>U+1F620\<close>

definition emoji_fearful :: string where
  "emoji_fearful = [CHR 0xF0, CHR 0x9F, CHR 0x98, CHR 0xA8]"  \<comment> \<open>U+1F628\<close>

definition emoji_disgusted :: string where
  "emoji_disgusted = [CHR 0xF0, CHR 0x9F, CHR 0xA4, CHR 0xA2]"  \<comment> \<open>U+1F922\<close>

definition emoji_surprised :: string where
  "emoji_surprised = [CHR 0xF0, CHR 0x9F, CHR 0x98, CHR 0xB2]"  \<comment> \<open>U+1F632\<close>

definition emoji_unknown :: string where
  "emoji_unknown = [CHR 0xE2, CHR 0x9D, CHR 0x93]"  \<comment> \<open>U+2753, the question mark glyph\<close>

definition anos :: string where
  "anos = [CHR 0x20, CHR 0x61, CHR 0xC3, CHR 0xB1, CHR 0x6F, CHR 0x73]"
  \<comment> \<open>the text \<open>" anos"\<close> of the templates, its \<open>n\<close> being U+00F1 (n with tilde)\<close>

subsection \<open>Data model\<close>

text \<open>\<open>interface FaceData\<close>, lines 9-14.\<close>

record FaceData =
  gender :: string
  age :: int
  emotion :: string
  expressions :: "(string \<times> real) list"

text \<open>
  One element of the array that \<open>faceapi.detectAllFaces(...).withFaceLandmarks()
  .withFaceExpressions().withAgeAndGender()\<close> resolves to, with the fields the component
  reads: \<open>detection.box\<close>, \<open>landmarks.positions\<close>, \<open>expressions\<close>, \<open>age\<close>, \<open>gender\<close>.
\<close>

record box =
  box_x :: real
  box_y :: real
  box_width :: real
  box_height :: real

record detection =
  det_box :: box
  det_positions :: "(real \<times> real) list"
  det_expressions :: "(string \<times> real) list"
  det_age :: "real option"
  det_gender :: "string option"

subsection \<open>\<open>getDominantExpression\<close>, lines 51-63\<close>

text \<open>
  The body of the \<open>forEach\<close> callback, on the pair of local variables
  \<open>(maxValue, dominantExpression)\<close>.
\<close>

fun dominant_step :: "real \<times> string \<Rightarrow> string \<times> real \<Rightarrow> real \<times> string" where
  "dominant_step (maxValue, dominantExpression) (expression, val) =
     (if val > maxValue then (val, expression) else (maxValue, dominantExpression))"

definition getDominantExpression :: "(string \<times> real) list \<Rightarrow> string" where
  "getDominantExpression entries = snd (foldl dominant_step (0, '''') entries)"

subsection \<open>\<open>getExpressionEmoji\<close>, lines 66-78\<close>

text \<open>
  What \<open>emojiMap[expression] || fallback\<close> can evaluate to. \<open>emojiMap\<close> is an object literal,
  so a property read that finds no own property goes on to \<open>Object.prototype\<close>: for the
  names below it yields that object's member (a function, or for \<open>__proto__\<close> the prototype
  itself), which is truthy and therefore returned instead of the fallback.
\<close>

datatype js_value = JString string | JNumber real | ObjectPrototypeMember string

definition emojiMap :: "(string \<times> string) list" where
  "emojiMap =
     [(''neutral'', emoji_neutral),
      (''happy'', emoji_happy),
      (''sad'', emoji_sad),
      (''angry'', emoji_angry),
      (''fearful'', emoji_fearful),
      (''disgusted'', emoji_disgusted),
      (''surprised'', emoji_surprised)]"

definition Object_prototype_names :: "string list" where
  "Object_prototype_names =
     [''constructor'', ''hasOwnProperty'', ''isPrototypeOf'', ''propertyIsEnumerable'',
      ''toLocaleString'', ''toString'', ''valueOf'', ''__proto__'',
      ''__defineGetter__'', ''__defineSetter__'', ''__lookupGetter__'', ''__lookupSetter__'']"

text \<open>\<open>obj[key]\<close> on an object literal: own properties first, then the prototype.\<close>

definition get_property :: "(string \<times> string) list \<Rightarrow> string \<Rightarrow> js_value option" where
  "get_property obj key =
     (case map_of obj key of
        Some v \<Rightarrow> Some (JString v)
      | None \<Rightarrow> if key \<in> set Object_prototype_names then Some (ObjectPrototypeMember key) else None)"

text \<open>
  \<open>v || d\<close>: \<open>undefined\<close>, the empty string and zero are falsy, everything else here is
  truthy.
\<close>

fun or_else :: "js_value option \<Rightarrow> js_value \<Rightarrow> js_value" where
  "or_else None d = d"
| "or_else (Some (JString s)) d = (if s = [] then d else JString s)"
| "or_else (Some (JNumber n)) d = (if n = 0 then d else JNumber n)"
| "or_else (Some (ObjectPrototypeMember k)) d = ObjectPrototypeMember k"

definition getExpressionEmoji :: "string \<Rightarrow> js_value" where
  "getExpressionEmoji expression = or_else (get_property emojiMap expression) (JString emoji_unknown)"

text \<open>The seven expression categories of the adapter (the keys of \<open>emojiMap\<close>).\<close>

definition expression_categories :: "string list" where
  "expression_categories =
     [''neutral'', ''happy'', ''sad'', ''angry'', ''fearful'', ''disgusted'', ''surprised'']"

subsection \<open>Building a \<open>FaceData\<close>, lines 104-116\<close>

text \<open>
  \<open>Math.round\<close>: the integer nearest to the argument, a tie going up (towards
  \<open>+\<infinity>\<close>).
\<close>

definition Math_round :: "real \<Rightarrow> int" where
  "Math_round x = \<lfloor>x + 1 / 2\<rfloor>"

text \<open>
  \<open>parseFloat(value.toFixed(2))\<close>. \<open>toFixed(2)\<close> prints \<open>n / 100\<close> for the integer \<open>n\<close>
  for which \<open>n / 100\<close> is nearest to the absolute value (of two such \<open>n\<close> the larger), with
  the sign in front; from \<open>10^21\<close> on it prints the number as \<open>toString\<close> does.
  \<open>parseFloat\<close> reads the printed decimal back.
\<close>

definition toFixed2 :: "real \<Rightarrow> real" where
  "toFixed2 v =
     (if \<bar>v\<bar> \<ge> 10 ^ 21 then v
      else if v < 0 then - (real_of_int \<lfloor>(- v) * 100 + 1 / 2\<rfloor> / 100)
      else real_of_int \<lfloor>v * 100 + 1 / 2\<rfloor> / 100)"

text \<open>
  \<open>Object.fromEntries\<close>: the entries are set one after the other on a fresh object, a
  repeated key overwriting the value in place. (Expression names are not integer-like, so
  property order is insertion order.)
\<close>

definition fromEntries :: "(string \<times> real) list \<Rightarrow> (string \<times> real) list" where
  "fromEntries es = foldl (\<lambda>obj (k, v). AList.update k v obj) [] es"

text \<open>\<open>detection.gender || 'desconocido'\<close> and \<open>detection.age || 0\<close>.\<close>

definition gender_or_unknown :: "string option \<Rightarrow> string" where
  "gender_or_unknown g =
     (case g of None \<Rightarrow> ''desconocido'' | Some s \<Rightarrow> if s = [] then ''desconocido'' else s)"

definition age_or_zero :: "real option \<Rightarrow> real" where
  "age_or_zero a = (case a of None \<Rightarrow> 0 | Some x \<Rightarrow> if x = 0 then 0 else x)"

text \<open>The callback of \<open>detections.map\<close>.\<close>

definition toFaceData :: "detection \<Rightarrow> FaceData" where
  "toFaceData d =
     (let exprs = det_expressions d;
          dominantExpression = getDominantExpression exprs
      in \<lparr> gender = gender_or_unknown (det_gender d),
           age = Math_round (age_or_zero (det_age d)),
           emotion = dominantExpression,
           expressions = fromEntries (map (\<lambda>(key, val). (key, toFixed2 val)) exprs) \<rparr>)"


section \<open>The drawing surface\<close>

text \<open>
  The canvas element: its \<open>width\<close> and \<open>height\<close> attributes, whether \<open>getContext('2d')\<close>
  yields a context, and the calls made on the element and on its context so far, oldest
  first. The helpers of \<open>faceapi.draw\<close> are recorded as one call each, with their argument.
  \<open>MoveTo\<close>, \<open>LineTo\<close> and \<open>Stroke\<close> are the context's calls for drawing a line; the
  component makes none of them.
\<close>

datatype canvas_call =
    SetWidth nat
  | SetHeight nat
  | ClearRect real real real real
  | DrawDetections "detection list"
  | DrawFaceLandmarks "detection list"
  | DrawFaceExpressions "detection list"
  | SetStrokeStyle string
  | SetLineWidth real
  | SetFillStyle string
  | SetFont string
  | BeginPath
  | Arc real real real real real
  | Fill
  | FillRect real real real real
  | FillText "js_value list" real real
  | MoveTo real real
  | LineTo real real
  | Stroke

record canvas =
  canvas_width :: nat
  canvas_height :: nat
  ctx2d :: bool
  calls :: "canvas_call list"

record video =
  video_width :: nat
  video_height :: nat

text \<open>
  \<open>faceapi.matchDimensions(canvas, displaySize)\<close> assigns \<open>canvas.width\<close> and
  \<open>canvas.height\<close>.
\<close>

definition matchDimensions :: "canvas \<Rightarrow> nat \<times> nat \<Rightarrow> canvas" where
  "matchDimensions c displaySize =
     c\<lparr> canvas_width := fst displaySize, canvas_height := snd displaySize,
        calls := calls c @ [SetWidth (fst displaySize), SetHeight (snd displaySize)] \<rparr>"

text \<open>
  What an HTML canvas shows: assigning \<open>width\<close> or \<open>height\<close> (also to the value it already
  has) resets the bitmap to transparent, so only the calls made since the last such
  assignment can still be seen.
\<close>

fun is_reset :: "canvas_call \<Rightarrow> bool" where
  "is_reset (SetWidth w) = True"
| "is_reset (SetHeight h) = True"
| "is_reset c = False"

definition since_reset :: "canvas_call list \<Rightarrow> canvas_call list" where
  "since_reset cs = rev (takeWhile (\<lambda>c. \<not> is_reset c) (rev cs))"

text \<open>
  The calls by which lines between points get drawn: the context's \<open>moveTo\<close>, \<open>lineTo\<close>
  and \<open>stroke\<close>, and the library's \<open>drawFaceLandmarks\<close>, which joins the landmark points of
  each face contour by stroked lines.
\<close>

fun is_edge_call :: "canvas_call \<Rightarrow> bool" where
  "is_edge_call (MoveTo x y) = True"
| "is_edge_call (LineTo x y) = True"
| "is_edge_call Stroke = True"
| "is_edge_call (DrawFaceLandmarks ds) = True"
| "is_edge_call c = False"

fun is_fill_text :: "canvas_call \<Rightarrow> bool" where
  "is_fill_text (FillText t x y) = True"
| "is_fill_text c = False"

fun is_arc :: "canvas_call \<Rightarrow> bool" where
  "is_arc (Arc x y r a b) = True"
| "is_arc c = False"

section \<open>Drawing one cycle's results, lines 120-192\<close>

datatype display_mode = Landmarks | Expressions | Mesh

text \<open>\<open>Math.PI\<close>: the double nearest to the circle constant, \<open>884279719003555 / 2^48\<close>.\<close>

definition Math_PI :: real where
  "Math_PI = 884279719003555 / 281474976710656"

text \<open>Lines 138-155: the \<open>mesh\<close> branch, for one detection; \<open>ctx\<close> tells whether the context exists.\<close>

definition mesh_calls :: "bool \<Rightarrow> detection \<Rightarrow> canvas_call list" where
  "mesh_calls ctx detection =
     (let points = det_positions detection
      in if ctx
         then [SetStrokeStyle ''#36f'', SetLineWidth 1] @
              concat (map (\<lambda>i. let point = points ! i
                                in [BeginPath, Arc (fst point) (snd point) 2 0 (2 * Math_PI),
                                    SetFillStyle ''#36f'', Fill])
                          [0..<length points])
         else [])"

text \<open>The two texts of the info panel, lines 178 and 186, as the pieces of the template.\<close>

definition age_gender_text :: "FaceData \<Rightarrow> js_value list" where
  "age_gender_text faceData =
     [JNumber (real_of_int (age faceData)), JString (anos @ '', ''),
      JString (if gender faceData = ''male'' then ''Hombre'' else ''Mujer'')]"

definition emotion_text :: "FaceData \<Rightarrow> js_value list" where
  "emotion_text faceData =
     [getExpressionEmoji (emotion faceData), JString '' '', JString (emotion faceData)]"

text \<open>
  Lines 160-191: the info panel of the detection at index \<open>idx\<close>. \<open>faceDataArray[idx]\<close> is
  read at the index of the resized detection; both arrays are maps of the same
  \<open>detections\<close>, so the index is in range.
\<close>

definition details_calls :: "bool \<Rightarrow> FaceData list \<Rightarrow> nat \<times> detection \<Rightarrow> canvas_call list" where
  "details_calls ctx faceDataArray p =
     (let idx = fst p; detection = snd p;
          b = det_box detection;
          faceData = faceDataArray ! idx
      in if ctx
         then [SetFillStyle ''rgba(0, 0, 0, 0.6)'',
               FillRect (box_x b) (box_y b - 50) (box_width b) 50,
               SetFont ''16px Arial'',
               SetFillStyle ''white'',
               FillText (age_gender_text faceData) (box_x b + 5) (box_y b - 30),
               SetFont ''20px Arial'',
               FillText (emotion_text faceData) (box_x b + 5) (box_y b - 10)]
         else [])"

text \<open>
  Lines 121-192. \<open>resizedDetections\<close> is what \<open>faceapi.resizeResults\<close> returned; the calls are
  listed in the order the code makes them.
\<close>

definition overlay_calls ::
  "display_mode \<Rightarrow> bool \<Rightarrow> canvas \<Rightarrow> detection list \<Rightarrow> FaceData list \<Rightarrow> canvas_call list" where
  "overlay_calls displayMode showDetails c resizedDetections faceDataArray =
     (let ctx = ctx2d c
      in (if ctx then [ClearRect 0 0 (real (canvas_width c)) (real (canvas_height c))] else []) @
         [DrawDetections resizedDetections] @
         (case displayMode of
            Landmarks \<Rightarrow> [DrawFaceLandmarks resizedDetections]
          | Expressions \<Rightarrow> [DrawFaceExpressions resizedDetections]
          | Mesh \<Rightarrow> concat (map (mesh_calls ctx) resizedDetections)) @
         (if showDetails
          then concat (map (details_calls ctx faceDataArray) (enumerate 0 resizedDetections))
          else []))"

section \<open>The component and its state\<close>

datatype error = Error string

datatype console_entry = ConsoleLog string | ConsoleError string error

definition msg_models_loaded :: string where
  "msg_models_loaded = ''Modelos cargados correctamente''"

definition msg_models_failed :: string where
  "msg_models_failed = ''Error al cargar los modelos:''"

definition msg_detection_failed :: string where
  "msg_detection_failed = ''Error en la detecci'' @ [CHR 0xC3, CHR 0xB3] @ ''n facial:''"

text \<open>
  The values of the render that a \<open>detectFaces\<close> closes over (the refs are read when it
  runs).
\<close>

record closure =
  cl_isModelLoaded :: bool
  cl_detectionEnabled :: bool
  cl_displayMode :: display_mode
  cl_showDetails :: bool

text \<open>An interval of the browser's timer table: its handle, its period, its callback.\<close>

record interval =
  iv_handle :: nat
  iv_period :: nat
  iv_callback :: closure

text \<open>
  A call of \<open>detectFaces\<close> suspended at its \<open>await\<close>: the locals and closed-over values that
  the rest of the call reads. (\<open>video\<close> and \<open>canvas\<close> are the elements, held by the state.)
\<close>

record cycle =
  cy_displaySize :: "nat \<times> nat"
  cy_displayMode :: display_mode
  cy_showDetails :: bool

text \<open>
  The \<open>useState\<close> cells and refs of lines 17-25, the browser's intervals, the suspended
  calls, whether the promise of \<open>loadModels\<close> is still pending, and the console.
\<close>

record component =
  isModelLoaded :: bool
  facesDetected :: nat
  detectionEnabled :: bool
  facesData :: "FaceData list"
  displayMode :: display_mode
  showDetails :: bool
  detectionInterval :: "nat option"
  webcam_video :: "video option"
  canvas_el :: "canvas option"
  intervals :: "interval list"
  next_handle :: nat
  inflight :: "cycle list"
  loading :: bool
  console :: "console_entry list"

definition closure_of :: "component \<Rightarrow> closure" where
  "closure_of s =
     \<lparr> cl_isModelLoaded = isModelLoaded s, cl_detectionEnabled = detectionEnabled s,
       cl_displayMode = displayMode s, cl_showDetails = showDetails s \<rparr>"

subsection \<open>Timers\<close>

text \<open>Timer handles are positive integers, hence truthy when a ref holds one.\<close>

definition setInterval :: "closure \<Rightarrow> nat \<Rightarrow> component \<Rightarrow> nat \<times> component" where
  "setInterval callback period s =
     (next_handle s,
      s\<lparr> intervals := intervals s @
             [\<lparr> iv_handle = next_handle s, iv_period = period, iv_callback = callback \<rparr>],
         next_handle := Suc (next_handle s) \<rparr>)"

definition clearInterval :: "nat \<Rightarrow> component \<Rightarrow> component" where
  "clearInterval h s = s\<lparr> intervals := filter (\<lambda>iv. iv_handle iv \<noteq> h) (intervals s) \<rparr>"

subsection \<open>The interval effect, lines 210-222\<close>

definition effect_cleanup :: "component \<Rightarrow> component" where
  "effect_cleanup s =
     (case detectionInterval s of Some h \<Rightarrow> clearInterval h s | None \<Rightarrow> s)"

definition effect_body :: "component \<Rightarrow> component" where
  "effect_body s =
     (if isModelLoaded s \<and> detectionEnabled s
      then (let (h, s') = setInterval (closure_of s) 1500 s
            in s'\<lparr> detectionInterval := Some h \<rparr>)
      else (case detectionInterval s of Some h \<Rightarrow> clearInterval h s | None \<Rightarrow> s))"

text \<open>
  The dependency array of line 222, and what React does after a state change: when a
  dependency differs from the previous render, the previous cleanup runs and then the
  effect.
\<close>

definition deps :: "component \<Rightarrow> bool \<times> bool \<times> display_mode \<times> bool" where
  "deps s = (isModelLoaded s, detectionEnabled s, displayMode s, showDetails s)"

definition commit :: "component \<Rightarrow> component \<Rightarrow> component" where
  "commit prev s = (if deps s \<noteq> deps prev then effect_body (effect_cleanup s) else s)"

subsection \<open>\<open>loadModels\<close>, lines 34-48\<close>

text \<open>
  How one \<open>loadFromUri\<close> promise settles: when, and rejected with which reason
  (\<open>None\<close>: fulfilled).
\<close>

record settlement =
  settled_at :: nat
  rejected_with :: "error option"

record model_loads =
  tinyFaceDetector :: settlement
  faceLandmark68Net :: settlement
  faceRecognitionNet :: settlement
  faceExpressionNet :: settlement
  ageGenderNet :: settlement

text \<open>
  \<open>Promise.all\<close>: fulfilled when every promise is, rejected with the reason of the promise
  that rejects first.
\<close>

fun earliest :: "settlement \<Rightarrow> settlement list \<Rightarrow> settlement" where
  "earliest p [] = p"
| "earliest p (q # qs) = earliest (if settled_at q < settled_at p then q else p) qs"

definition Promise_all :: "settlement list \<Rightarrow> error option" where
  "Promise_all ps =
     (case filter (\<lambda>p. rejected_with p \<noteq> None) ps of
        [] \<Rightarrow> None
      | r # rs \<Rightarrow> rejected_with (earliest r rs))"

text \<open>The rest of \<open>loadModels\<close> once the five loads have settled as \<open>l\<close> says.\<close>

definition loadModels :: "model_loads \<Rightarrow> component \<Rightarrow> component" where
  "loadModels l s =
     (case Promise_all [tinyFaceDetector l, faceLandmark68Net l, faceRecognitionNet l,
                        faceExpressionNet l, ageGenderNet l] of
        None \<Rightarrow>
          commit s (s\<lparr> isModelLoaded := True,
                       console := console s @ [ConsoleLog msg_models_loaded] \<rparr>)
      | Some e \<Rightarrow> s\<lparr> console := console s @ [ConsoleError msg_models_failed e] \<rparr>)"

subsection \<open>\<open>detectFaces\<close>, lines 81-196\<close>

text \<open>
  Lines 82-98, up to the \<open>await\<close>: the guard, the locals, \<open>matchDimensions\<close>, and the call
  of the adapter, which leaves the cycle suspended.
\<close>

definition detectFaces_start :: "closure \<Rightarrow> component \<Rightarrow> component" where
  "detectFaces_start cl s =
     (case webcam_video s of
        None \<Rightarrow> s
      | Some v \<Rightarrow>
         (case canvas_el s of
            None \<Rightarrow> s
          | Some c \<Rightarrow>
              if \<not> cl_isModelLoaded cl \<or> \<not> cl_detectionEnabled cl then s
              else (let displaySize = (video_width v, video_height v)
                    in s\<lparr> canvas_el := Some (matchDimensions c displaySize),
                          inflight := inflight s @
                            [\<lparr> cy_displaySize = displaySize,
                               cy_displayMode = cl_displayMode cl,
                               cy_showDetails = cl_showDetails cl \<rparr>] \<rparr>)))"

text \<open>
  Lines 100-195, from the \<open>await\<close> on: \<open>outcome\<close> is how the adapter's promise settled.
  \<open>resize\<close> stands for \<open>faceapi.resizeResults\<close> on one detection (on an array the library maps
  it over the elements). The helpers of \<open>faceapi.draw\<close> and \<open>resizeResults\<close> are taken not to
  throw.
\<close>

definition detectFaces_resume ::
  "(nat \<times> nat \<Rightarrow> detection \<Rightarrow> detection) \<Rightarrow> cycle \<Rightarrow> error + detection list \<Rightarrow>
     component \<Rightarrow> component" where
  "detectFaces_resume resize cy outcome s =
     (case outcome of
        Inl e \<Rightarrow> s\<lparr> console := console s @ [ConsoleError msg_detection_failed e] \<rparr>
      | Inr detections \<Rightarrow>
          (let faceDataArray = map toFaceData detections;
               resizedDetections = map (resize (cy_displaySize cy)) detections
           in s\<lparr> facesDetected := length detections,
                 facesData := faceDataArray,
                 canvas_el :=
                   map_option
                     (\<lambda>c. c\<lparr> calls := calls c @
                              overlay_calls (cy_displayMode cy) (cy_showDetails cy) c
                                resizedDetections faceDataArray \<rparr>)
                     (canvas_el s) \<rparr>))"

text \<open>
  A whole call of \<open>detectFaces\<close> during whose \<open>await\<close> nothing else happens: either it
  returned at its guard, or the call just suspended goes on with the outcome of the
  adapter.
\<close>

definition detectFaces ::
  "(nat \<times> nat \<Rightarrow> detection \<Rightarrow> detection) \<Rightarrow> closure \<Rightarrow> error + detection list \<Rightarrow>
     component \<Rightarrow> component" where
  "detectFaces resize cl outcome s =
     (let s1 = detectFaces_start cl s
      in if inflight s1 = inflight s then s1
         else detectFaces_resume resize (last (inflight s1)) outcome
                (s1\<lparr> inflight := inflight s \<rparr>))"

subsection \<open>What the component renders from its state, lines 306, 310 and 326-374\<close>

record face_view =
  fv_title :: "js_value list"
  fv_age :: "js_value list"
  fv_gender :: string
  fv_emotion :: "js_value list"
  fv_levels :: "(string \<times> real \<times> bool) list"

definition face_view_of :: "nat \<times> FaceData \<Rightarrow> face_view" where
  "face_view_of p =
     (let index = fst p; face = snd p
      in \<lparr> fv_title = [JString ''Rostro #'', JNumber (real (index + 1))],
           fv_age = [JNumber (real_of_int (age face)), JString anos],
           fv_gender = (if gender face = ''male'' then ''Hombre'' else ''Mujer''),
           fv_emotion = [getExpressionEmoji (emotion face), JString '' '', JString (emotion face)],
           fv_levels = map (\<lambda>(expr, val). (expr, val, expr = emotion face)) (expressions face) \<rparr>)"

record view =
  faces_counter :: nat
  loading_notice :: bool
  details :: "face_view list option"

definition render :: "component \<Rightarrow> view" where
  "render s =
     \<lparr> faces_counter = facesDetected s,
       loading_notice = (\<not> isModelLoaded s),
       details = (if length (facesData s) > 0
                  then Some (map face_view_of (enumerate 0 (facesData s))) else None) \<rparr>"

subsection \<open>The component over time\<close>

text \<open>
  What can happen to the mounted component: the loads of \<open>loadModels\<close> settle; the interval
  with a given handle fires; the adapter's promise of the suspended call at a given
  position settles; the user clicks the detection button, selects a display mode, clicks
  the details button.
  Each is handled to its end before the next one: a state change is followed by the
  render and by the interval effect's cleanup and body before anything else happens.
\<close>

datatype event =
    ModelsSettled model_loads
  | Tick nat
  | DetectionSettled nat "error + detection list"
  | ToggleDetection
  | SelectMode display_mode
  | ToggleDetails

text \<open>The state hooks' initial values, and the component once mounted (lines 199-207 and 210).\<close>

definition initial :: "video option \<Rightarrow> canvas option \<Rightarrow> component" where
  "initial v c =
     \<lparr> isModelLoaded = False, facesDetected = 0, detectionEnabled = True, facesData = [],
       displayMode = Landmarks, showDetails = True, detectionInterval = None,
       webcam_video = v, canvas_el = c, intervals = [], next_handle = 1, inflight = [],
       loading = False, console = [] \<rparr>"

definition mounted :: "video option \<Rightarrow> canvas option \<Rightarrow> component" where
  "mounted v c = effect_body ((initial v c)\<lparr> loading := True \<rparr>)"

fun step :: "(nat \<times> nat \<Rightarrow> detection \<Rightarrow> detection) \<Rightarrow> component \<Rightarrow> event \<Rightarrow> component" where
  "step resize s (ModelsSettled l) =
     (if loading s then loadModels l (s\<lparr> loading := False \<rparr>) else s)"
| "step resize s (Tick h) =
     (case filter (\<lambda>iv. iv_handle iv = h) (intervals s) of
        [] \<Rightarrow> s
      | iv # ivs \<Rightarrow> detectFaces_start (iv_callback iv) s)"
| "step resize s (DetectionSettled k outcome) =
     (if k < length (inflight s)
      then detectFaces_resume resize (inflight s ! k) outcome
             (s\<lparr> inflight := take k (inflight s) @ drop (Suc k) (inflight s) \<rparr>)
      else s)"
| "step resize s ToggleDetection = commit s (s\<lparr> detectionEnabled := \<not> detectionEnabled s \<rparr>)"
| "step resize s (SelectMode m) = commit s (s\<lparr> displayMode := m \<rparr>)"
| "step resize s ToggleDetails = commit s (s\<lparr> showDetails := \<not> showDetails s \<rparr>)"

definition run :: "(nat \<times> nat \<Rightarrow> detection \<Rightarrow> detection) \<Rightarrow> component \<Rightarrow> event list \<Rightarrow> component" where
  "run resize s es = foldl (step resize) s es"


section \<open>Concrete inputs\<close>

text \<open>The expression mapping of the specification's example, a full tie, and a degenerate one.\<close>

definition example_expressions :: "(string \<times> real) list" where
  "example_expressions = [(''neutral'', 0.1), (''happy'', 0.7), (''sad'', 0.2)]"

definition tied_expressions :: "(string \<times> real) list" where
  "tied_expressions = [(''neutral'', 0.5), (''happy'', 0.5)]"

definition zero_expressions :: "(string \<times> real) list" where
  "zero_expressions = [(''neutral'', 0), (''happy'', 0)]"

text \<open>A detection whose gender the adapter did not report.\<close>

definition example_detection :: detection where
  "example_detection =
     \<lparr> det_box = \<lparr> box_x = 100, box_y = 80, box_width = 120, box_height = 150 \<rparr>,
       det_positions = [(110, 90), (130, 95)],
       det_expressions = [(''neutral'', 0.333333), (''happy'', 0.666667)],
       det_age = Some 23.6,
       det_gender = None \<rparr>"

definition example_video :: video where
  "example_video = \<lparr> video_width = 640, video_height = 360 \<rparr>"

definition example_canvas :: canvas where
  "example_canvas = \<lparr> canvas_width = 640, canvas_height = 360, ctx2d = True, calls = [] \<rparr>"

definition loads_ok :: model_loads where
  "loads_ok =
     \<lparr> tinyFaceDetector = \<lparr> settled_at = 3, rejected_with = None \<rparr>,
       faceLandmark68Net = \<lparr> settled_at = 1, rejected_with = None \<rparr>,
       faceRecognitionNet = \<lparr> settled_at = 5, rejected_with = None \<rparr>,
       faceExpressionNet = \<lparr> settled_at = 2, rejected_with = None \<rparr>,
       ageGenderNet = \<lparr> settled_at = 4, rejected_with = None \<rparr> \<rparr>"

definition loads_failing :: model_loads where
  "loads_failing =
     loads_ok\<lparr> faceExpressionNet := \<lparr> settled_at = 2, rejected_with = Some (Error ''404'') \<rparr> \<rparr>"

text \<open>A \<open>resizeResults\<close> for a video shown at the size of its frames.\<close>

definition same_size :: "nat \<times> nat \<Rightarrow> detection \<Rightarrow> detection" where
  "same_size displaySize d = d"

text \<open>Whether each of the five loads was fulfilled.\<close>

definition all_loaded :: "model_loads \<Rightarrow> bool" where
  "all_loaded l =
     list_all (\<lambda>p. rejected_with p = None)
       [tinyFaceDetector l, faceLandmark68Net l, faceRecognitionNet l,
        faceExpressionNet l, ageGenderNet l]"

fun is_ModelsSettled :: "event \<Rightarrow> bool" where
  "is_ModelsSettled (ModelsSettled l) = True"
| "is_ModelsSettled e = False"

fun is_DetectionSettled :: "event \<Rightarrow> bool" where
  "is_DetectionSettled (DetectionSettled k outcome) = True"
| "is_DetectionSettled e = False"



text \<open>What the canvas of the component shows (\<open>None\<close>: there is no canvas).\<close>

definition visible_calls :: "component \<Rightarrow> canvas_call list option" where
  "visible_calls s = map_option (\<lambda>c. since_reset (calls c)) (canvas_el s)"

text \<open>
  The mounted component after the models have loaded, the interval has fired once and the
  adapter has found one face; the same with the interval fired once but the adapter not
  yet settled.
\<close>

definition example_started :: component where
  "example_started =
     run same_size (mounted (Some example_video) (Some example_canvas))
       [ModelsSettled loads_ok, Tick 1]"

definition example_shown :: component where
  "example_shown = run same_size example_started [DetectionSettled 0 (Inr [example_detection])]"

text \<open>After that, the interval fires again and this time the adapter's call fails.\<close>

definition example_failed :: component where
  "example_failed =
     run same_size example_shown [Tick 1, DetectionSettled 0 (Inl (Error ''inference failed''))]"

text \<open>
  No interval is armed, no call is suspended and the models are not loaded; the published
  count, records and canvas of two states agree.
\<close>

definition idle :: "component \<Rightarrow> bool" where
  "idle s = (\<not> isModelLoaded s \<and> intervals s = [] \<and> inflight s = [])"

definition same_published :: "component \<Rightarrow> component \<Rightarrow> bool" where
  "same_published s t =
     (facesDetected t = facesDetected s \<and> facesData t = facesData s \<and> canvas_el t = canvas_el s)"

text \<open>Every armed interval is the one whose handle the ref \<open>detectionInterval\<close> holds.\<close>

definition owned :: "component \<Rightarrow> bool" where
  "owned s = list_all (\<lambda>iv. detectionInterval s = Some (iv_handle iv)) (intervals s)"

section \<open>Properties of the values\<close>

subsection \<open>Dominant expression\<close>

lemma foldl_dominant_step:
  "foldl dominant_step (m0, d0) es = (m, d) \<Longrightarrow>
     (if \<forall>j<length es. snd (es ! j) \<le> m0 then m = m0 \<and> d = d0
      else \<exists>i<length es. d = fst (es ! i) \<and> m = snd (es ! i) \<and> m0 < m
             \<and> (\<forall>j<length es. snd (es ! j) \<le> m) \<and> (\<forall>j<i. snd (es ! j) < m))"
proof (induction es arbitrary: m d rule: rev_induct)
  case Nil
  then show ?case by simp
next
  case (snoc e es)
  obtain m1 d1 where f: "foldl dominant_step (m0, d0) es = (m1, d1)"
    by (cases "foldl dominant_step (m0, d0) es")
  obtain k v where e: "e = (k, v)" by (cases e)
  note IH = snoc.IH [OF f]
  from snoc.prems f e have md: "(m, d) = (if v > m1 then (v, k) else (m1, d1))"
    by simp
  have nth_old: "\<And>j. j < length es \<Longrightarrow> (es @ [e]) ! j = es ! j"
    by (simp add: nth_append)
  have nth_new: "(es @ [e]) ! length es = (k, v)"
    by (simp add: e)
  show ?case
  proof (cases "\<forall>j<length es. snd (es ! j) \<le> m0")
    case True
    with IH have m1: "m1 = m0" "d1 = d0" by simp_all
    show ?thesis
    proof (cases "v > m1")
      case gt: True
      with md have "m = v" "d = k" by simp_all
      moreover have "\<not> (\<forall>j<length (es @ [e]). snd ((es @ [e]) ! j) \<le> m0)"
        using gt m1 nth_new by (auto intro!: exI [of _ "length es"])
      moreover have "\<forall>j<length es. snd ((es @ [e]) ! j) < v"
        using True gt m1 nth_old by fastforce
      ultimately show ?thesis
        using gt m1 nth_new nth_old
        by (auto simp: less_Suc_eq intro!: exI [of _ "length es"] dest: less_imp_le)
    next
      case le: False
      with md have "m = m0" "d = d0" using m1 by simp_all
      moreover have "\<forall>j<length (es @ [e]). snd ((es @ [e]) ! j) \<le> m0"
        using True le m1 nth_new nth_old by (auto simp: less_Suc_eq)
      ultimately show ?thesis by simp
    qed
  next
    case False
    with IH obtain i where i: "i < length es" "d1 = fst (es ! i)" "m1 = snd (es ! i)" "m0 < m1"
      "\<forall>j<length es. snd (es ! j) \<le> m1" "\<forall>j<i. snd (es ! j) < m1"
      by auto
    have not_all: "\<not> (\<forall>j<length (es @ [e]). snd ((es @ [e]) ! j) \<le> m0)"
      using False nth_old by (auto simp: less_Suc_eq)
    show ?thesis
    proof (cases "v > m1")
      case gt: True
      with md have "m = v" "d = k" by simp_all
      moreover have "\<forall>j<length es. snd ((es @ [e]) ! j) < v"
        using i(5) gt nth_old by fastforce
      ultimately show ?thesis
        using not_all gt i(4) nth_new
        by (auto simp: less_Suc_eq intro!: exI [of _ "length es"] dest: less_imp_le)
    next
      case le: False
      with md have md': "m = m1" "d = d1" by simp_all
      have "i < length (es @ [e])" using i(1) by simp
      moreover have "d = fst ((es @ [e]) ! i)" "m = snd ((es @ [e]) ! i)"
        using md' i(1,2,3) nth_old by simp_all
      moreover have "\<forall>j<length (es @ [e]). snd ((es @ [e]) ! j) \<le> m"
        using i(5) le md' nth_new nth_old by (auto simp: less_Suc_eq)
      moreover have "\<forall>j<i. snd ((es @ [e]) ! j) < m"
        using i(1,6) md' nth_old by auto
      ultimately show ?thesis
        using not_all i(4) md' by (simp only: if_False) blast
    qed
  qed
qed

lemma dominant_of_example: "getDominantExpression example_expressions = ''happy''"
  by (simp add: getDominantExpression_def example_expressions_def)

lemma dominant_of_tie: "getDominantExpression tied_expressions = ''neutral''"
  by (simp add: getDominantExpression_def tied_expressions_def)

text \<open>
  Claim C1. Whenever some probability is positive, \<open>getDominantExpression\<close> returns the key
  of an entry whose probability no entry exceeds and which every earlier entry stays
  strictly below: the greatest probability, and among equals the entry that comes first
  in iteration order. When every probability is zero it returns the empty label.
\<close>

theorem getDominantExpression_first_maximum:
  "((\<exists>i<length es. 0 < snd (es ! i)) \<longrightarrow>
      (\<exists>i<length es. getDominantExpression es = fst (es ! i)
          \<and> (\<forall>j<length es. snd (es ! j) \<le> snd (es ! i))
          \<and> (\<forall>j<i. snd (es ! j) < snd (es ! i))))
   \<and> ((\<forall>j<length es. snd (es ! j) = 0) \<longrightarrow> getDominantExpression es = '''')"
proof -
  obtain m d where f: "foldl dominant_step (0, '''') es = (m, d)"
    by (cases "foldl dominant_step (0, '''') es")
  then have d: "getDominantExpression es = d"
    by (simp add: getDominantExpression_def)
  note inv = foldl_dominant_step [OF f]
  have pos: "\<exists>i<length es. d = fst (es ! i)
          \<and> (\<forall>j<length es. snd (es ! j) \<le> snd (es ! i))
          \<and> (\<forall>j<i. snd (es ! j) < snd (es ! i))"
    if "\<exists>i<length es. 0 < snd (es ! i)"
  proof -
    from that have "\<not> (\<forall>j<length es. snd (es ! j) \<le> 0)"
      by (auto simp: not_le)
    with inv obtain i where "i < length es" "d = fst (es ! i)" "m = snd (es ! i)"
      "\<forall>j<length es. snd (es ! j) \<le> m" "\<forall>j<i. snd (es ! j) < m"
      by auto
    then show ?thesis by blast
  qed
  have zero: "d = ''''" if "\<forall>j<length es. snd (es ! j) = 0"
  proof -
    from that have "\<forall>j<length es. snd (es ! j) \<le> 0" by simp
    with inv show ?thesis by simp
  qed
  from pos zero d show ?thesis by simp
qed

theorem getDominantExpression_first_maximum_witness:
  "(\<exists>i<length example_expressions. 0 < snd (example_expressions ! i))
   \<and> (\<exists>i<length example_expressions.
         getDominantExpression example_expressions = fst (example_expressions ! i)
         \<and> (\<forall>j<length example_expressions.
               snd (example_expressions ! j) \<le> snd (example_expressions ! i))
         \<and> (\<forall>j<i. snd (example_expressions ! j) < snd (example_expressions ! i)))
   \<and> map snd zero_expressions = [0, 0]
   \<and> getDominantExpression zero_expressions = ''''"
proof -
  have h1: "\<exists>i<length example_expressions. 0 < snd (example_expressions ! i)"
    by (rule exI [of _ 0]) (simp add: example_expressions_def)
  have h2: "\<forall>j<length zero_expressions. snd (zero_expressions ! j) = 0"
    by (simp add: zero_expressions_def less_Suc_eq)
  have h3: "map snd zero_expressions = [0, 0]"
    by (simp add: zero_expressions_def)
  from h1 h2 h3 getDominantExpression_first_maximum [of example_expressions]
    getDominantExpression_first_maximum [of zero_expressions]
  show ?thesis by blast
qed

subsection \<open>Emoji lookup\<close>

text \<open>
  The lookup is fixed on the seven expression categories, each mapped to its own glyph
  (\<open>happy\<close> to the grinning face), none of them the fallback glyph; every other string
  that is not the name of a member inherited from \<open>Object.prototype\<close> maps to the fallback
  glyph, the empty label among them.
\<close>

lemma getExpressionEmoji_lookup:
  "length expression_categories = 7
   \<and> distinct expression_categories
   \<and> map getExpressionEmoji expression_categories =
       map JString [emoji_neutral, emoji_happy, emoji_sad, emoji_angry, emoji_fearful,
                    emoji_disgusted, emoji_surprised]
   \<and> getExpressionEmoji ''happy'' = JString emoji_happy
   \<and> JString emoji_unknown \<notin> set (map getExpressionEmoji expression_categories)
   \<and> (e \<notin> set expression_categories \<and> e \<notin> set Object_prototype_names \<longrightarrow>
        getExpressionEmoji e = JString emoji_unknown)
   \<and> getExpressionEmoji '''' = JString emoji_unknown"
proof -
  have cats: "length expression_categories = 7" "distinct expression_categories"
    by (simp_all add: expression_categories_def)
  have known: "map getExpressionEmoji expression_categories =
       map JString [emoji_neutral, emoji_happy, emoji_sad, emoji_angry, emoji_fearful,
                    emoji_disgusted, emoji_surprised]"
    by (simp add: expression_categories_def getExpressionEmoji_def get_property_def emojiMap_def
        emoji_neutral_def emoji_happy_def emoji_sad_def emoji_angry_def emoji_fearful_def
        emoji_disgusted_def emoji_surprised_def)
  have happy: "getExpressionEmoji ''happy'' = JString emoji_happy"
    by (simp add: getExpressionEmoji_def get_property_def emojiMap_def emoji_happy_def)
  have apart: "JString emoji_unknown \<notin> set (map getExpressionEmoji expression_categories)"
    unfolding known
    by (simp add: emoji_unknown_def emoji_neutral_def emoji_happy_def emoji_sad_def
        emoji_angry_def emoji_fearful_def emoji_disgusted_def emoji_surprised_def)
  have other: "getExpressionEmoji e = JString emoji_unknown"
    if "e \<notin> set expression_categories" "e \<notin> set Object_prototype_names"
  proof -
    from that(1) have "map_of emojiMap e = None"
      by (simp add: expression_categories_def emojiMap_def)
    with that(2) show ?thesis
      by (simp add: getExpressionEmoji_def get_property_def)
  qed
  have empty: "getExpressionEmoji '''' = JString emoji_unknown"
    by (simp add: getExpressionEmoji_def get_property_def emojiMap_def Object_prototype_names_def)
  from cats known happy apart other empty show ?thesis by blast
qed

lemma getExpressionEmoji_confused: "getExpressionEmoji ''confused'' = JString emoji_unknown"
  by (simp add: getExpressionEmoji_def get_property_def emojiMap_def Object_prototype_names_def)


subsection \<open>Rounding\<close>

lemma Math_round_nearest: "\<bar>real_of_int (Math_round x) - x\<bar> \<le> \<bar>real_of_int k - x\<bar>"
proof -
  define n where "n = \<lfloor>x + 1 / 2\<rfloor>"
  have lo: "real_of_int n \<le> x + 1 / 2" and hi: "x + 1 / 2 < real_of_int n + 1"
    unfolding n_def by linarith+
  consider "k \<le> n - 1" | "k = n" | "n + 1 \<le> k" by linarith
  then have "\<bar>real_of_int n - x\<bar> \<le> \<bar>real_of_int k - x\<bar>"
  proof cases
    case 1
    then have "real_of_int k \<le> real_of_int n - 1" by linarith
    with lo hi show ?thesis by linarith
  next
    case 2
    then show ?thesis by simp
  next
    case 3
    then have "real_of_int n + 1 \<le> real_of_int k" by linarith
    with lo hi show ?thesis by linarith
  qed
  then show ?thesis by (simp add: Math_round_def n_def)
qed

lemma toFixed2_nearest:
  assumes "\<bar>v\<bar> < 10 ^ 21"
  shows "\<exists>n::int. toFixed2 v = real_of_int n / 100
           \<and> (\<forall>m::int. \<bar>real_of_int n / 100 - v\<bar> \<le> \<bar>real_of_int m / 100 - v\<bar>)"
proof (cases "v < 0")
  case False
  let ?n = "Math_round (v * 100)"
  have eq: "toFixed2 v = real_of_int ?n / 100"
    using assms False by (simp add: toFixed2_def Math_round_def)
  have "\<bar>real_of_int ?n / 100 - v\<bar> \<le> \<bar>real_of_int m / 100 - v\<bar>" for m :: int
    using Math_round_nearest [of "v * 100" m] by (simp add: field_simps abs_if split: if_splits)
  with eq show ?thesis by blast
next
  case True
  let ?r = "Math_round (- v * 100)"
  have eq: "toFixed2 v = real_of_int (- ?r) / 100"
    using assms True by (simp add: toFixed2_def Math_round_def)
  have "\<bar>real_of_int (- ?r) / 100 - v\<bar> \<le> \<bar>real_of_int m / 100 - v\<bar>" for m :: int
    using Math_round_nearest [of "- v * 100" "- m"] by (simp add: field_simps abs_if split: if_splits)
  with eq show ?thesis by blast
qed

lemma update_fresh: "k \<notin> fst ` set al \<Longrightarrow> AList.update k v al = al @ [(k, v)]"
  by (induction al) auto

lemma foldl_update_distinct:
  "distinct (map fst (acc @ es)) \<Longrightarrow>
     foldl (\<lambda>obj (k, v). AList.update k v obj) acc es = acc @ es"
proof (induction es arbitrary: acc)
  case Nil
  then show ?case by simp
next
  case (Cons e es)
  obtain k v where e: "e = (k, v)" by (cases e)
  from Cons.prems e have fresh: "k \<notin> fst ` set acc" by auto
  from Cons.prems e have "distinct (map fst ((acc @ [(k, v)]) @ es))" by simp
  from Cons.IH [OF this] show ?case
    by (simp add: e update_fresh [OF fresh])
qed

lemma fromEntries_distinct: "distinct (map fst es) \<Longrightarrow> fromEntries es = es"
  using foldl_update_distinct [of "[]" es] by (simp add: fromEntries_def)

lemma map_fst_rounded: "map fst (map (\<lambda>(key, val). (key, f val)) es) = map fst es"
  by (induction es) auto

lemma expressions_toFaceData:
  assumes "distinct (map fst (det_expressions d))"
  shows "expressions (toFaceData d) = map (\<lambda>(key, val). (key, toFixed2 val)) (det_expressions d)"
proof -
  have "distinct (map fst (map (\<lambda>(key, val). (key, toFixed2 val)) (det_expressions d)))"
    using assms by (simp only: map_fst_rounded)
  then show ?thesis
    by (simp add: toFaceData_def Let_def fromEntries_distinct)
qed

lemma age_toFaceData: "age (toFaceData d) = Math_round (age_or_zero (det_age d))"
  by (simp add: toFaceData_def Let_def)

lemma example_detection_rounded:
  "age (toFaceData example_detection) = 24
   \<and> expressions (toFaceData example_detection) = [(''neutral'', 0.33), (''happy'', 0.67)]"
  by (simp add: toFaceData_def Let_def example_detection_def age_or_zero_def Math_round_def
      fromEntries_def toFixed2_def)

text \<open>
  Claim C5. The published age is an integer nearest to the age estimate (no integer is
  nearer), and 23.6 is published as 24. The published expression mapping has the entries
  of the adapter's mapping, in order and under the same names, each probability replaced
  by a multiple of 0.01 nearest to it (no multiple of 0.01 is nearer), and 0.666667 is
  published as 0.67. (The names of a mapping are distinct, and a probability is far
  below \<open>10^21\<close>, from where on \<open>toFixed\<close> no longer rounds.)
\<close>

theorem published_age_and_probabilities_rounded:
  "(det_age d = Some a \<longrightarrow>
      (\<forall>k::int. \<bar>real_of_int (age (toFaceData d)) - a\<bar> \<le> \<bar>real_of_int k - a\<bar>))
   \<and> (distinct (map fst (det_expressions d)) \<longrightarrow>
        length (expressions (toFaceData d)) = length (det_expressions d)
        \<and> (\<forall>i<length (det_expressions d).
              \<bar>snd (det_expressions d ! i)\<bar> < 10 ^ 21 \<longrightarrow>
              fst (expressions (toFaceData d) ! i) = fst (det_expressions d ! i)
              \<and> (\<exists>n::int. snd (expressions (toFaceData d) ! i) = real_of_int n / 100
                    \<and> (\<forall>m::int. \<bar>real_of_int n / 100 - snd (det_expressions d ! i)\<bar>
                                  \<le> \<bar>real_of_int m / 100 - snd (det_expressions d ! i)\<bar>))))
   \<and> age (toFaceData (d\<lparr> det_age := Some 23.6 \<rparr>)) = 24
   \<and> expressions (toFaceData (d\<lparr> det_expressions := [(''happy'', 0.666667)] \<rparr>)) =
       [(''happy'', 0.67)]"
proof -
  have ages: "\<bar>real_of_int (age (toFaceData d)) - a\<bar> \<le> \<bar>real_of_int k - a\<bar>"
    if "det_age d = Some a" for k :: int
    using that Math_round_nearest [of a k] by (simp add: age_toFaceData age_or_zero_def)
  have probs: "fst (expressions (toFaceData d) ! i) = fst (det_expressions d ! i)
        \<and> (\<exists>n::int. snd (expressions (toFaceData d) ! i) = real_of_int n / 100
              \<and> (\<forall>m::int. \<bar>real_of_int n / 100 - snd (det_expressions d ! i)\<bar>
                            \<le> \<bar>real_of_int m / 100 - snd (det_expressions d ! i)\<bar>))"
    if dist: "distinct (map fst (det_expressions d))" and i: "i < length (det_expressions d)"
      and small: "\<bar>snd (det_expressions d ! i)\<bar> < 10 ^ 21" for i
  proof -
    obtain k v where kv: "det_expressions d ! i = (k, v)"
      by (cases "det_expressions d ! i")
    from i kv have "expressions (toFaceData d) ! i = (k, toFixed2 v)"
      by (simp add: expressions_toFaceData [OF dist])
    with kv small toFixed2_nearest [of v] show ?thesis by simp
  qed
  have len: "length (expressions (toFaceData d)) = length (det_expressions d)"
    if "distinct (map fst (det_expressions d))"
    by (simp add: expressions_toFaceData [OF that])
  have ex1: "age (toFaceData (d\<lparr> det_age := Some 23.6 \<rparr>)) = 24"
    by (simp add: age_toFaceData age_or_zero_def Math_round_def)
  have ex2: "expressions (toFaceData (d\<lparr> det_expressions := [(''happy'', 0.666667)] \<rparr>)) =
       [(''happy'', 0.67)]"
    by (simp add: toFaceData_def Let_def fromEntries_def toFixed2_def)
  from ages probs len ex1 ex2 show ?thesis by blast
qed

theorem published_age_and_probabilities_rounded_witness:
  "det_age example_detection = Some 23.6
   \<and> distinct (map fst (det_expressions example_detection))
   \<and> 1 < length (det_expressions example_detection)
   \<and> \<bar>snd (det_expressions example_detection ! 1)\<bar> < 10 ^ 21
   \<and> (\<forall>k::int. \<bar>real_of_int (age (toFaceData example_detection)) - 23.6\<bar>
                 \<le> \<bar>real_of_int k - 23.6\<bar>)
   \<and> fst (expressions (toFaceData example_detection) ! 1) = ''happy''"
proof -
  have h: "det_age example_detection = Some 23.6"
    "distinct (map fst (det_expressions example_detection))"
    "1 < length (det_expressions example_detection)"
    "\<bar>snd (det_expressions example_detection ! 1)\<bar> < 10 ^ 21"
    "fst (det_expressions example_detection ! 1) = ''happy''"
    by (simp_all add: example_detection_def)
  from h published_age_and_probabilities_rounded [of example_detection "23.6"]
  show ?thesis by metis
qed

section \<open>Properties of one detection cycle\<close>

lemmas component_defs = run_def mounted_def initial_def effect_body_def effect_cleanup_def
  commit_def deps_def loadModels_def Promise_all_def setInterval_def clearInterval_def
  closure_of_def detectFaces_start_def detectFaces_resume_def Let_def

lemma example_started_eval:
  "example_started =
     \<lparr> isModelLoaded = True, facesDetected = 0, detectionEnabled = True, facesData = [],
       displayMode = Landmarks, showDetails = True, detectionInterval = Some 1,
       webcam_video = Some example_video,
       canvas_el = Some (matchDimensions example_canvas (640, 360)),
       intervals = [\<lparr> iv_handle = 1, iv_period = 1500,
                      iv_callback = \<lparr> cl_isModelLoaded = True, cl_detectionEnabled = True,
                                      cl_displayMode = Landmarks, cl_showDetails = True \<rparr> \<rparr>],
       next_handle = 2,
       inflight = [\<lparr> cy_displaySize = (640, 360), cy_displayMode = Landmarks,
                     cy_showDetails = True \<rparr>],
       loading = False, console = [ConsoleLog msg_models_loaded] \<rparr>"
  by (simp add: example_started_def component_defs loads_ok_def example_video_def)

text \<open>
  In the info panels the record of a face is read at the index of its resized detection,
  which is always within the records just built.
\<close>

lemma details_index_in_range:
  "p \<in> set (enumerate 0 (map (resize sz) ds)) \<Longrightarrow> fst p < length (map toFaceData ds)"
  by (auto simp: in_set_enumerate_eq)

subsection \<open>A cycle whose detection succeeds\<close>

text \<open>
  Claim C3. When the adapter's call of a cycle resolves with \<open>ds\<close>, the published face
  count is the number of elements of \<open>ds\<close> and the published collection is made of one
  record per element of \<open>ds\<close>, in order, computed from \<open>ds\<close> alone: whatever the previous
  collection was, nothing of it remains. This holds for the rest of \<open>detectFaces\<close> after
  its \<open>await\<close>, for a whole call that passes its guard, and for the component when the
  call suspended at position \<open>k\<close> resumes.
\<close>

theorem successful_cycle_replaces_published_state:
  "facesDetected (detectFaces_resume resize cy (Inr ds) s) = length ds
   \<and> facesData (detectFaces_resume resize cy (Inr ds) s) = map toFaceData ds
   \<and> length (facesData (detectFaces_resume resize cy (Inr ds) s)) = length ds
   \<and> facesData (detectFaces_resume resize cy (Inr ds) s) =
       facesData (detectFaces_resume resize cy (Inr ds) (s\<lparr> facesData := old \<rparr>))
   \<and> (webcam_video s \<noteq> None \<and> canvas_el s \<noteq> None \<and> cl_isModelLoaded cl \<and> cl_detectionEnabled cl
        \<longrightarrow> facesDetected (detectFaces resize cl (Inr ds) s) = length ds
            \<and> facesData (detectFaces resize cl (Inr ds) s) = map toFaceData ds)
   \<and> (k < length (inflight s) \<longrightarrow>
        facesDetected (step resize s (DetectionSettled k (Inr ds))) = length ds
        \<and> facesData (step resize s (DetectionSettled k (Inr ds))) = map toFaceData ds)"
  by (auto simp: detectFaces_def detectFaces_start_def detectFaces_resume_def Let_def)

theorem successful_cycle_replaces_published_state_witness:
  "0 < length (inflight example_started)
   \<and> facesDetected (step same_size example_started (DetectionSettled 0 (Inr [example_detection])))
       = length [example_detection]
   \<and> facesData (step same_size example_started (DetectionSettled 0 (Inr [example_detection])))
       = map toFaceData [example_detection]
   \<and> webcam_video example_started \<noteq> None \<and> canvas_el example_started \<noteq> None
   \<and> facesData (detectFaces same_size
                   \<lparr> cl_isModelLoaded = True, cl_detectionEnabled = True, cl_displayMode = Mesh,
                     cl_showDetails = False \<rparr>
                   (Inr [example_detection, example_detection]) example_started)
       = map toFaceData [example_detection, example_detection]"
proof -
  have h: "0 < length (inflight example_started)"
    "webcam_video example_started \<noteq> None" "canvas_el example_started \<noteq> None"
    by (simp_all add: example_started_eval)
  note thm1 = successful_cycle_replaces_published_state
         [of same_size _ "[example_detection]" example_started _ _ 0]
  note thm2 = successful_cycle_replaces_published_state
         [of same_size _ "[example_detection, example_detection]" example_started _
             "\<lparr> cl_isModelLoaded = True, cl_detectionEnabled = True, cl_displayMode = Mesh,
                cl_showDetails = False \<rparr>"]
  from h thm1 thm2 show ?thesis by simp
qed

subsection \<open>The point mesh\<close>

lemma map_over_indices: "map (\<lambda>i. f (xs ! i)) [0..<length xs] = map f xs"
proof -
  have "map (\<lambda>i. f (xs ! i)) [0..<length xs] = map f (map (\<lambda>i. xs ! i) [0..<length xs])"
    by (simp add: comp_def)
  then show ?thesis by (simp add: map_nth)
qed

lemma mesh_calls_circles:
  "mesh_calls True d =
     [SetStrokeStyle ''#36f'', SetLineWidth 1] @
     concat (map (\<lambda>p. [BeginPath, Arc (fst p) (snd p) 2 0 (2 * Math_PI), SetFillStyle ''#36f'', Fill])
               (det_positions d))"
  using map_over_indices
          [of "\<lambda>p. [BeginPath, Arc (fst p) (snd p) 2 0 (2 * Math_PI), SetFillStyle ''#36f'', Fill]"
              "det_positions d"]
  by (simp add: mesh_calls_def Let_def)

lemma mesh_calls_all_circles:
  "concat (map (mesh_calls True) rs) =
     concat (map (\<lambda>d. [SetStrokeStyle ''#36f'', SetLineWidth 1] @
                       concat (map (\<lambda>p. [BeginPath, Arc (fst p) (snd p) 2 0 (2 * Math_PI),
                                           SetFillStyle ''#36f'', Fill])
                                 (det_positions d))) rs)"
  by (induction rs) (simp_all add: mesh_calls_circles)

lemma filter_concat_map: "filter P (concat (map f xs)) = concat (map (\<lambda>x. filter P (f x)) xs)"
  by (induction xs) simp_all

lemma arcs_of_circles:
  "filter is_arc (concat (map (\<lambda>p. [BeginPath, Arc (fst p) (snd p) 2 0 (2 * Math_PI),
                                       SetFillStyle ''#36f'', Fill]) ps)) =
     map (\<lambda>p. Arc (fst p) (snd p) 2 0 (2 * Math_PI)) ps"
  by (induction ps) simp_all

lemma arcs_of_mesh_calls:
  "filter is_arc (concat (map (mesh_calls True) rs)) =
     map (\<lambda>p. Arc (fst p) (snd p) 2 0 (2 * Math_PI)) (concat (map det_positions rs))"
  by (induction rs) (simp_all add: mesh_calls_circles arcs_of_circles)

lemma no_arcs_in_details: "filter is_arc (concat (map (details_calls ctx fds) ps)) = []"
  by (induction ps) (simp_all add: details_calls_def Let_def)

lemma no_lines_in_mesh_calls: "call \<in> set (mesh_calls ctx d) \<Longrightarrow> \<not> is_edge_call call"
  by (auto simp: mesh_calls_def Let_def split: if_splits)

lemma no_lines_in_details: "call \<in> set (details_calls ctx fds p) \<Longrightarrow> \<not> is_edge_call call"
  by (auto simp: details_calls_def Let_def split: if_splits)

lemma details_calls_explicit:
  "details_calls True fds =
     (\<lambda>p. [SetFillStyle ''rgba(0, 0, 0, 0.6)'',
           FillRect (box_x (det_box (snd p))) (box_y (det_box (snd p)) - 50)
             (box_width (det_box (snd p))) 50,
           SetFont ''16px Arial'',
           SetFillStyle ''white'',
           FillText (age_gender_text (fds ! fst p))
             (box_x (det_box (snd p)) + 5) (box_y (det_box (snd p)) - 30),
           SetFont ''20px Arial'',
           FillText (emotion_text (fds ! fst p))
             (box_x (det_box (snd p)) + 5) (box_y (det_box (snd p)) - 10)])"
  by (rule ext) (simp add: details_calls_def Let_def)

lemma landmarks_mode_draws_contours:
  "filter is_edge_call (overlay_calls Landmarks sd c rs fds) = [DrawFaceLandmarks rs]"
proof -
  have "filter is_edge_call (concat (map (details_calls (ctx2d c) fds) ps)) = []" for ps
    by (auto simp: filter_empty_conv dest: no_lines_in_details)
  then show ?thesis
    by (simp add: overlay_calls_def Let_def)
qed

text \<open>
  Claim C7. A cycle in mesh mode on a canvas with a 2D context appends to the canvas
  exactly these calls: the clearing; the library's detection boxes; then for every
  detected face the two style settings followed, for each of its landmark points in
  order, by a new path holding one arc of radius 2 around the point from angle 0 to
  \<open>2 * Math.PI\<close> (a circle), filled in the colour \<open>#36f\<close>; and last, when details are
  shown, for every face the seven calls of its info panel (a filled rectangle and two
  texts with their styles). The arcs drawn are exactly those of the landmark points, and
  no call draws a line between points: neither a line call of the context nor the
  library's contour-drawing \<open>drawFaceLandmarks\<close>.
\<close>

theorem mesh_mode_draws_points_only:
  "canvas_el s = Some c \<and> ctx2d c \<and> cy_displayMode cy = Mesh \<longrightarrow>
     (let rs = map (resize (cy_displaySize cy)) ds;
          fds = map toFaceData ds;
          new =
            [ClearRect 0 0 (real (canvas_width c)) (real (canvas_height c)), DrawDetections rs] @
            concat (map (\<lambda>d. [SetStrokeStyle ''#36f'', SetLineWidth 1] @
                              concat (map (\<lambda>p. [BeginPath, Arc (fst p) (snd p) 2 0 (2 * Math_PI),
                                                  SetFillStyle ''#36f'', Fill])
                                        (det_positions d)))
                      rs) @
            (if cy_showDetails cy
             then concat (map (\<lambda>p. [SetFillStyle ''rgba(0, 0, 0, 0.6)'',
                                     FillRect (box_x (det_box (snd p))) (box_y (det_box (snd p)) - 50)
                                       (box_width (det_box (snd p))) 50,
                                     SetFont ''16px Arial'',
                                     SetFillStyle ''white'',
                                     FillText (age_gender_text (fds ! fst p))
                                       (box_x (det_box (snd p)) + 5) (box_y (det_box (snd p)) - 30),
                                     SetFont ''20px Arial'',
                                     FillText (emotion_text (fds ! fst p))
                                       (box_x (det_box (snd p)) + 5) (box_y (det_box (snd p)) - 10)])
                            (enumerate 0 rs))
             else [])
      in canvas_el (detectFaces_resume resize cy (Inr ds) s) = Some (c\<lparr> calls := calls c @ new \<rparr>)
         \<and> filter is_arc new =
             map (\<lambda>p. Arc (fst p) (snd p) 2 0 (2 * Math_PI)) (concat (map det_positions rs))
         \<and> filter is_edge_call new = []
         \<and> DrawFaceLandmarks rs \<notin> set new)"
proof
  assume a: "canvas_el s = Some c \<and> ctx2d c \<and> cy_displayMode cy = Mesh"
  define rs where "rs = map (resize (cy_displaySize cy)) ds"
  define fds where "fds = map toFaceData ds"
  define panels where "panels =
    (if cy_showDetails cy then concat (map (details_calls True fds) (enumerate 0 rs)) else [])"
  define new where "new = overlay_calls Mesh (cy_showDetails cy) c rs fds"
  have c': "canvas_el (detectFaces_resume resize cy (Inr ds) s) = Some (c\<lparr> calls := calls c @ new \<rparr>)"
    using a by (simp add: detectFaces_resume_def Let_def new_def rs_def fds_def)
  have new: "new =
      [ClearRect 0 0 (real (canvas_width c)) (real (canvas_height c)), DrawDetections rs] @
      concat (map (mesh_calls True) rs) @ panels"
    using a by (simp add: overlay_calls_def Let_def new_def panels_def)
  have panels: "panels =
      (if cy_showDetails cy
       then concat (map (\<lambda>p. [SetFillStyle ''rgba(0, 0, 0, 0.6)'',
                               FillRect (box_x (det_box (snd p))) (box_y (det_box (snd p)) - 50)
                                 (box_width (det_box (snd p))) 50,
                               SetFont ''16px Arial'',
                               SetFillStyle ''white'',
                               FillText (age_gender_text (fds ! fst p))
                                 (box_x (det_box (snd p)) + 5) (box_y (det_box (snd p)) - 30),
                               SetFont ''20px Arial'',
                               FillText (emotion_text (fds ! fst p))
                                 (box_x (det_box (snd p)) + 5) (box_y (det_box (snd p)) - 10)])
                      (enumerate 0 rs))
       else [])"
    unfolding panels_def by (simp only: details_calls_explicit)
  have shape: "new =
      [ClearRect 0 0 (real (canvas_width c)) (real (canvas_height c)), DrawDetections rs] @
      concat (map (\<lambda>d. [SetStrokeStyle ''#36f'', SetLineWidth 1] @
                        concat (map (\<lambda>p. [BeginPath, Arc (fst p) (snd p) 2 0 (2 * Math_PI),
                                            SetFillStyle ''#36f'', Fill])
                                  (det_positions d))) rs) @
      (if cy_showDetails cy
       then concat (map (\<lambda>p. [SetFillStyle ''rgba(0, 0, 0, 0.6)'',
                               FillRect (box_x (det_box (snd p))) (box_y (det_box (snd p)) - 50)
                                 (box_width (det_box (snd p))) 50,
                               SetFont ''16px Arial'',
                               SetFillStyle ''white'',
                               FillText (age_gender_text (fds ! fst p))
                                 (box_x (det_box (snd p)) + 5) (box_y (det_box (snd p)) - 30),
                               SetFont ''20px Arial'',
                               FillText (emotion_text (fds ! fst p))
                                 (box_x (det_box (snd p)) + 5) (box_y (det_box (snd p)) - 10)])
                      (enumerate 0 rs))
       else [])"
    using new panels by (simp only: mesh_calls_all_circles)
  have arcs: "filter is_arc new =
      map (\<lambda>p. Arc (fst p) (snd p) 2 0 (2 * Math_PI)) (concat (map det_positions rs))"
    unfolding new by (simp add: arcs_of_mesh_calls no_arcs_in_details panels_def)
  have no_edge: "\<not> is_edge_call call" if "call \<in> set new" for call
    using that unfolding new panels_def
    by (auto dest: no_lines_in_mesh_calls no_lines_in_details split: if_splits)
  then have lines: "filter is_edge_call new = []"
    by (simp add: filter_empty_conv)
  have contour: "DrawFaceLandmarks rs \<notin> set new"
    using no_edge [of "DrawFaceLandmarks rs"] by auto
  from c' arcs lines contour
  have "canvas_el (detectFaces_resume resize cy (Inr ds) s) = Some (c\<lparr> calls := calls c @ new \<rparr>)
         \<and> filter is_arc new =
             map (\<lambda>p. Arc (fst p) (snd p) 2 0 (2 * Math_PI)) (concat (map det_positions rs))
         \<and> filter is_edge_call new = []
         \<and> DrawFaceLandmarks rs \<notin> set new"
    by (simp only: simp_thms)
  then show "let rs = map (resize (cy_displaySize cy)) ds;
          fds = map toFaceData ds;
          new =
            [ClearRect 0 0 (real (canvas_width c)) (real (canvas_height c)), DrawDetections rs] @
            concat (map (\<lambda>d. [SetStrokeStyle ''#36f'', SetLineWidth 1] @
                              concat (map (\<lambda>p. [BeginPath, Arc (fst p) (snd p) 2 0 (2 * Math_PI),
                                                  SetFillStyle ''#36f'', Fill])
                                        (det_positions d)))
                      rs) @
            (if cy_showDetails cy
             then concat (map (\<lambda>p. [SetFillStyle ''rgba(0, 0, 0, 0.6)'',
                                     FillRect (box_x (det_box (snd p))) (box_y (det_box (snd p)) - 50)
                                       (box_width (det_box (snd p))) 50,
                                     SetFont ''16px Arial'',
                                     SetFillStyle ''white'',
                                     FillText (age_gender_text (fds ! fst p))
                                       (box_x (det_box (snd p)) + 5) (box_y (det_box (snd p)) - 30),
                                     SetFont ''20px Arial'',
                                     FillText (emotion_text (fds ! fst p))
                                       (box_x (det_box (snd p)) + 5) (box_y (det_box (snd p)) - 10)])
                            (enumerate 0 rs))
             else [])
      in canvas_el (detectFaces_resume resize cy (Inr ds) s) = Some (c\<lparr> calls := calls c @ new \<rparr>)
         \<and> filter is_arc new =
             map (\<lambda>p. Arc (fst p) (snd p) 2 0 (2 * Math_PI)) (concat (map det_positions rs))
         \<and> filter is_edge_call new = []
         \<and> DrawFaceLandmarks rs \<notin> set new"
    unfolding Let_def rs_def [symmetric] fds_def [symmetric] shape [symmetric] .
qed

theorem mesh_mode_draws_points_only_witness:
  "canvas_el (example_started\<lparr> inflight := [] \<rparr>) = Some (matchDimensions example_canvas (640, 360))
   \<and> ctx2d (matchDimensions example_canvas (640, 360))
   \<and> map_option calls
        (canvas_el
           (detectFaces_resume same_size
              \<lparr> cy_displaySize = (640, 360), cy_displayMode = Mesh, cy_showDetails = False \<rparr>
              (Inr [example_detection]) (example_started\<lparr> inflight := [] \<rparr>)))
       = Some [SetWidth 640, SetHeight 360, ClearRect 0 0 640 360,
               DrawDetections [example_detection],
               SetStrokeStyle ''#36f'', SetLineWidth 1,
               BeginPath, Arc 110 90 2 0 (2 * Math_PI), SetFillStyle ''#36f'', Fill,
               BeginPath, Arc 130 95 2 0 (2 * Math_PI), SetFillStyle ''#36f'', Fill]"
proof -
  let ?s = "example_started\<lparr> inflight := [] \<rparr>"
  let ?c = "matchDimensions example_canvas (640, 360)"
  let ?cy = "\<lparr> cy_displaySize = (640, 360), cy_displayMode = Mesh, cy_showDetails = False \<rparr>"
  have h: "canvas_el ?s = Some ?c \<and> ctx2d ?c \<and> cy_displayMode ?cy = Mesh"
    by (simp add: example_started_eval matchDimensions_def example_canvas_def)
  note inst = mesh_mode_draws_points_only
    [of ?s ?c ?cy same_size "[example_detection]", unfolded Let_def]
  from inst h
  have "canvas_el (detectFaces_resume same_size ?cy (Inr [example_detection]) ?s) =
      Some (?c\<lparr> calls := calls ?c @
        [ClearRect 0 0 (real (canvas_width ?c)) (real (canvas_height ?c)),
         DrawDetections (map (same_size (cy_displaySize ?cy)) [example_detection])] @
        concat (map (\<lambda>d. [SetStrokeStyle ''#36f'', SetLineWidth 1] @
                          concat (map (\<lambda>p. [BeginPath, Arc (fst p) (snd p) 2 0 (2 * Math_PI),
                                              SetFillStyle ''#36f'', Fill])
                                    (det_positions d)))
                  (map (same_size (cy_displaySize ?cy)) [example_detection])) @
        (if cy_showDetails ?cy then
           concat (map (\<lambda>p. [SetFillStyle ''rgba(0, 0, 0, 0.6)'',
                                     FillRect (box_x (det_box (snd p))) (box_y (det_box (snd p)) - 50)
                                       (box_width (det_box (snd p))) 50,
                                     SetFont ''16px Arial'',
                                     SetFillStyle ''white'',
                                     FillText (age_gender_text (map toFaceData [example_detection] ! fst p))
                                       (box_x (det_box (snd p)) + 5) (box_y (det_box (snd p)) - 30),
                                     SetFont ''20px Arial'',
                                     FillText (emotion_text (map toFaceData [example_detection] ! fst p))
                                       (box_x (det_box (snd p)) + 5) (box_y (det_box (snd p)) - 10)])
                    (enumerate 0 (map (same_size (cy_displaySize ?cy)) [example_detection])))
         else []) \<rparr>)"
    by blast
  then have "map_option calls
        (canvas_el (detectFaces_resume same_size ?cy (Inr [example_detection]) ?s))
       = Some [SetWidth 640, SetHeight 360, ClearRect 0 0 640 360,
               DrawDetections [example_detection],
               SetStrokeStyle ''#36f'', SetLineWidth 1,
               BeginPath, Arc 110 90 2 0 (2 * Math_PI), SetFillStyle ''#36f'', Fill,
               BeginPath, Arc 130 95 2 0 (2 * Math_PI), SetFillStyle ''#36f'', Fill]"
    by (simp add: matchDimensions_def example_canvas_def same_size_def example_detection_def)
  with h show ?thesis by simp
qed

subsection \<open>Gender label\<close>

lemma map_enumerate_indices:
  "map f (enumerate 0 xs) = map (\<lambda>i. f (i, xs ! i)) [0..<length xs]"
  by (rule nth_equalityI) (simp_all add: nth_enumerate_eq)

lemma genders_of_views:
  "map (fv_gender \<circ> face_view_of) (enumerate n fds) =
     map (\<lambda>face. if gender face = ''male'' then ''Hombre'' else ''Mujer'') fds"
  by (rule nth_equalityI) (simp_all add: nth_enumerate_eq face_view_of_def Let_def)

lemma gender_or_unknown_male: "gender_or_unknown g = ''male'' \<longleftrightarrow> g = Some ''male''"
  by (auto simp: gender_or_unknown_def split: option.splits)

lemma genders_published:
  "map gender (map toFaceData ds) = map (\<lambda>d. gender_or_unknown (det_gender d)) ds"
  by (simp add: toFaceData_def Let_def)

lemma labels_published:
  "map (\<lambda>face. if gender face = ''male'' then ''Hombre'' else ''Mujer'') (map toFaceData ds) =
     map (\<lambda>d. if det_gender d = Some ''male'' then ''Hombre'' else ''Mujer'') ds"
  by (simp add: toFaceData_def Let_def gender_or_unknown_male)

lemma no_text_in_mesh: "filter is_fill_text (concat (map (mesh_calls ctx) rs)) = []"
  by (auto simp: filter_empty_conv mesh_calls_def Let_def split: if_splits)

lemma texts_of_details:
  "filter is_fill_text (concat (map (details_calls True fds) ps)) =
     concat (map (\<lambda>p. [FillText (age_gender_text (fds ! fst p))
                          (box_x (det_box (snd p)) + 5) (box_y (det_box (snd p)) - 30),
                        FillText (emotion_text (fds ! fst p))
                          (box_x (det_box (snd p)) + 5) (box_y (det_box (snd p)) - 10)]) ps)"
  by (induction ps) (simp_all add: details_calls_def Let_def)

lemma texts_of_overlay:
  assumes "ctx2d c"
  shows "filter is_fill_text (overlay_calls m True c rs fds) =
     concat (map (\<lambda>i. [FillText (age_gender_text (fds ! i))
                          (box_x (det_box (rs ! i)) + 5) (box_y (det_box (rs ! i)) - 30),
                        FillText (emotion_text (fds ! i))
                          (box_x (det_box (rs ! i)) + 5) (box_y (det_box (rs ! i)) - 10)])
               [0..<length rs])"
proof -
  have "filter is_fill_text (overlay_calls m True c rs fds) =
      filter is_fill_text (concat (map (details_calls True fds) (enumerate 0 rs)))"
    using assms by (cases m) (simp_all add: overlay_calls_def Let_def no_text_in_mesh)
  also have "\<dots> = concat (map (\<lambda>p. [FillText (age_gender_text (fds ! fst p))
                          (box_x (det_box (snd p)) + 5) (box_y (det_box (snd p)) - 30),
                        FillText (emotion_text (fds ! fst p))
                          (box_x (det_box (snd p)) + 5) (box_y (det_box (snd p)) - 10)])
                  (enumerate 0 rs))"
    by (rule texts_of_details)
  also have "\<dots> = concat (map (\<lambda>i. [FillText (age_gender_text (fds ! i))
                          (box_x (det_box (rs ! i)) + 5) (box_y (det_box (rs ! i)) - 30),
                        FillText (emotion_text (fds ! i))
                          (box_x (det_box (rs ! i)) + 5) (box_y (det_box (rs ! i)) - 10)])
               [0..<length rs])"
    by (simp add: map_enumerate_indices)
  finally show ?thesis .
qed

text \<open>
  Claim C10. Whatever records are published, the details list that the component renders
  has one entry per record, in order, whose gender line reads \<open>Hombre\<close> when the stored
  gender is \<open>male\<close> and \<open>Mujer\<close> for every other stored value. A successful cycle stores
  for each detection the adapter's gender, or \<open>desconocido\<close> when the adapter reports
  none; with details shown on a canvas with a 2D context, the texts it draws are, for
  each face in order, the age and gender text of its info panel, ending in \<open>Hombre\<close> when
  the stored gender is \<open>male\<close> and in \<open>Mujer\<close> otherwise, and the emotion text, and no
  other text; and the details list rendered after the cycle reads \<open>Hombre\<close> for a
  detection the adapter reports as \<open>male\<close> and \<open>Mujer\<close> for every other one, a detection
  without gender included.
\<close>

theorem gender_label_shown:
  "(facesData s \<noteq> [] \<longrightarrow>
      (\<exists>vs. details (render s) = Some vs
         \<and> map fv_gender vs =
             map (\<lambda>face. if gender face = ''male'' then ''Hombre'' else ''Mujer'') (facesData s)))
   \<and> (canvas_el s = Some c \<and> ctx2d c \<and> cy_showDetails cy \<longrightarrow>
        (let s' = detectFaces_resume resize cy (Inr ds) s;
             rs = map (resize (cy_displaySize cy)) ds;
             new = overlay_calls (cy_displayMode cy) True c rs (facesData s')
         in canvas_el s' = Some (c\<lparr> calls := calls c @ new \<rparr>)
            \<and> filter is_fill_text new =
                concat (map (\<lambda>i. [FillText
                                     [JNumber (real_of_int (age (facesData s' ! i))),
                                      JString (anos @ '', ''),
                                      JString (if gender (facesData s' ! i) = ''male''
                                               then ''Hombre'' else ''Mujer'')]
                                     (box_x (det_box (rs ! i)) + 5) (box_y (det_box (rs ! i)) - 30),
                                   FillText (emotion_text (facesData s' ! i))
                                     (box_x (det_box (rs ! i)) + 5) (box_y (det_box (rs ! i)) - 10)])
                          [0..<length ds])))
   \<and> map gender (facesData (detectFaces_resume resize cy (Inr ds) s)) =
       map (\<lambda>d. gender_or_unknown (det_gender d)) ds
   \<and> gender_or_unknown None = ''desconocido''
   \<and> (ds \<noteq> [] \<longrightarrow>
        (\<exists>vs. details (render (detectFaces_resume resize cy (Inr ds) s)) = Some vs
           \<and> map fv_gender vs =
               map (\<lambda>d. if det_gender d = Some ''male'' then ''Hombre'' else ''Mujer'') ds))"
proof -
  have list: "\<exists>vs. details (render t) = Some vs
         \<and> map fv_gender vs =
             map (\<lambda>face. if gender face = ''male'' then ''Hombre'' else ''Mujer'') (facesData t)"
    if "facesData t \<noteq> []" for t
    using that by (simp add: render_def genders_of_views)
  define s' where "s' = detectFaces_resume resize cy (Inr ds) s"
  define rs where "rs = map (resize (cy_displaySize cy)) ds"
  have fds: "facesData s' = map toFaceData ds"
    by (simp add: s'_def detectFaces_resume_def Let_def)
  have panel: "canvas_el s' =
        Some (c\<lparr> calls := calls c @ overlay_calls (cy_displayMode cy) True c rs (facesData s') \<rparr>)
      \<and> filter is_fill_text (overlay_calls (cy_displayMode cy) True c rs (facesData s')) =
          concat (map (\<lambda>i. [FillText
                               [JNumber (real_of_int (age (facesData s' ! i))),
                                JString (anos @ '', ''),
                                JString (if gender (facesData s' ! i) = ''male''
                                         then ''Hombre'' else ''Mujer'')]
                               (box_x (det_box (rs ! i)) + 5) (box_y (det_box (rs ! i)) - 30),
                             FillText (emotion_text (facesData s' ! i))
                               (box_x (det_box (rs ! i)) + 5) (box_y (det_box (rs ! i)) - 10)])
                    [0..<length ds])"
    if a: "canvas_el s = Some c \<and> ctx2d c \<and> cy_showDetails cy"
  proof -
    from a have "canvas_el s' =
        Some (c\<lparr> calls := calls c @ overlay_calls (cy_displayMode cy) True c rs (map toFaceData ds) \<rparr>)"
      by (simp add: s'_def rs_def detectFaces_resume_def Let_def)
    moreover from a have "ctx2d c" by simp
    from texts_of_overlay [OF this, of "cy_displayMode cy" rs "facesData s'"]
    have "filter is_fill_text (overlay_calls (cy_displayMode cy) True c rs (facesData s')) =
          concat (map (\<lambda>i. [FillText
                               [JNumber (real_of_int (age (facesData s' ! i))),
                                JString (anos @ '', ''),
                                JString (if gender (facesData s' ! i) = ''male''
                                         then ''Hombre'' else ''Mujer'')]
                               (box_x (det_box (rs ! i)) + 5) (box_y (det_box (rs ! i)) - 30),
                             FillText (emotion_text (facesData s' ! i))
                               (box_x (det_box (rs ! i)) + 5) (box_y (det_box (rs ! i)) - 10)])
                    [0..<length ds])"
      by (simp add: age_gender_text_def rs_def)
    ultimately show ?thesis by (simp add: fds)
  qed
  have stored: "map gender (facesData s') = map (\<lambda>d. gender_or_unknown (det_gender d)) ds"
    by (simp only: fds genders_published)
  have unknown: "gender_or_unknown None = ''desconocido''"
    by (simp add: gender_or_unknown_def)
  have after: "\<exists>vs. details (render s') = Some vs
           \<and> map fv_gender vs =
               map (\<lambda>d. if det_gender d = Some ''male'' then ''Hombre'' else ''Mujer'') ds"
    if "ds \<noteq> []"
  proof -
    from that have "facesData s' \<noteq> []" by (simp add: fds)
    from list [OF this] show ?thesis by (simp only: fds labels_published)
  qed
  from list [of s] panel stored unknown after show ?thesis
    unfolding Let_def s'_def [symmetric] rs_def [symmetric] by blast
qed

theorem gender_label_shown_witness:
  "canvas_el (example_started\<lparr> inflight := [] \<rparr>) = Some (matchDimensions example_canvas (640, 360))
   \<and> ctx2d (matchDimensions example_canvas (640, 360))
   \<and> det_gender example_detection = None
   \<and> facesData
        (detectFaces_resume same_size
           \<lparr> cy_displaySize = (640, 360), cy_displayMode = Landmarks, cy_showDetails = True \<rparr>
           (Inr [example_detection]) (example_started\<lparr> inflight := [] \<rparr>)) \<noteq> []
   \<and> map gender
        (facesData
           (detectFaces_resume same_size
              \<lparr> cy_displaySize = (640, 360), cy_displayMode = Landmarks, cy_showDetails = True \<rparr>
              (Inr [example_detection]) (example_started\<lparr> inflight := [] \<rparr>)))
       = [''desconocido'']
   \<and> map_option (map fv_gender)
        (details
           (render
              (detectFaces_resume same_size
                 \<lparr> cy_displaySize = (640, 360), cy_displayMode = Landmarks, cy_showDetails = True \<rparr>
                 (Inr [example_detection]) (example_started\<lparr> inflight := [] \<rparr>))))
       = Some [''Mujer'']
   \<and> filter is_fill_text
        (overlay_calls Landmarks True (matchDimensions example_canvas (640, 360))
           [example_detection]
           (facesData
              (detectFaces_resume same_size
                 \<lparr> cy_displaySize = (640, 360), cy_displayMode = Landmarks, cy_showDetails = True \<rparr>
                 (Inr [example_detection]) (example_started\<lparr> inflight := [] \<rparr>))))
       = [FillText [JNumber 24, JString (anos @ '', ''), JString ''Mujer''] 105 50,
          FillText [JString emoji_happy, JString '' '', JString ''happy''] 105 70]"
proof -
  let ?s = "example_started\<lparr> inflight := [] \<rparr>"
  let ?c = "matchDimensions example_canvas (640, 360)"
  let ?cy = "\<lparr> cy_displaySize = (640, 360), cy_displayMode = Landmarks, cy_showDetails = True \<rparr>"
  let ?s' = "detectFaces_resume same_size ?cy (Inr [example_detection]) ?s"
  have h: "canvas_el ?s = Some ?c \<and> ctx2d ?c \<and> cy_showDetails ?cy"
    by (simp add: example_started_eval matchDimensions_def example_canvas_def)
  have g: "det_gender example_detection = None" "[example_detection] \<noteq> []"
    by (simp_all add: example_detection_def)
  have fd: "facesData ?s' = [toFaceData example_detection]"
    by (simp add: detectFaces_resume_def Let_def)
  have rec: "age (toFaceData example_detection) = 24"
    "gender (toFaceData example_detection) = ''desconocido''"
    "emotion_text (toFaceData example_detection) =
       [JString emoji_happy, JString '' '', JString ''happy'']"
    "det_box example_detection =
       \<lparr> box_x = 100, box_y = 80, box_width = 120, box_height = 150 \<rparr>"
    by (simp_all add: toFaceData_def Let_def example_detection_def age_or_zero_def Math_round_def
        gender_or_unknown_def emotion_text_def getDominantExpression_def getExpressionEmoji_def
        get_property_def emojiMap_def emoji_happy_def same_size_def)
  note inst = gender_label_shown
    [of ?s ?c ?cy same_size "[example_detection]", unfolded Let_def]
  note inst' = gender_label_shown [of ?s']
  from inst h have texts: "filter is_fill_text
        (overlay_calls (cy_displayMode ?cy) True ?c
           (map (same_size (cy_displaySize ?cy)) [example_detection]) (facesData ?s'))
       = concat (map (\<lambda>i. [FillText
                                     [JNumber (real_of_int (age (facesData ?s' ! i))),
                                      JString (anos @ '', ''),
                                      JString (if gender (facesData ?s' ! i) = ''male''
                                               then ''Hombre'' else ''Mujer'')]
                                     (box_x (det_box (map (same_size (cy_displaySize ?cy)) [example_detection] ! i)) + 5)
                                     (box_y (det_box (map (same_size (cy_displaySize ?cy)) [example_detection] ! i)) - 30),
                                   FillText (emotion_text (facesData ?s' ! i))
                                     (box_x (det_box (map (same_size (cy_displaySize ?cy)) [example_detection] ! i)) + 5)
                                     (box_y (det_box (map (same_size (cy_displaySize ?cy)) [example_detection] ! i)) - 10)])
                          [0..<length [example_detection]])"
    by blast
  from inst g have stored: "map gender (facesData ?s') =
      map (\<lambda>d. gender_or_unknown (det_gender d)) [example_detection]"
    and shown: "\<exists>vs. details (render ?s') = Some vs
           \<and> map fv_gender vs =
               map (\<lambda>d. if det_gender d = Some ''male'' then ''Hombre'' else ''Mujer'')
                 [example_detection]"
    by blast+
  from stored g have 1: "map gender (facesData ?s') = [''desconocido'']"
    by (simp add: gender_or_unknown_def)
  from shown g have 2: "map_option (map fv_gender) (details (render ?s')) = Some [''Mujer'']"
    by auto
  have ne: "facesData ?s' \<noteq> []"
    by (simp add: fd)
  with inst' have 4: "\<exists>vs. details (render ?s') = Some vs
         \<and> map fv_gender vs =
             map (\<lambda>face. if gender face = ''male'' then ''Hombre'' else ''Mujer'') (facesData ?s')"
    by blast
  from texts have 3: "filter is_fill_text
        (overlay_calls Landmarks True ?c [example_detection] (facesData ?s'))
       = [FillText [JNumber 24, JString (anos @ '', ''), JString ''Mujer''] 105 50,
          FillText [JString emoji_happy, JString '' '', JString ''happy''] 105 70]"
    by (simp add: fd rec same_size_def)
  from h g 1 2 3 4 ne show ?thesis by simp
qed




section \<open>Properties of the component over time\<close>

subsection \<open>What the steps leave alone\<close>

lemma run_Cons: "run resize s (e # es) = run resize (step resize s e) es"
  by (simp add: run_def)

lemma run_append: "run resize s (es @ es') = run resize (run resize s es) es'"
  by (simp add: run_def)

lemma run_Nil: "run resize s [] = s"
  by (simp add: run_def)

lemma commit_frame:
  "isModelLoaded (commit b s) = isModelLoaded s"
  "facesDetected (commit b s) = facesDetected s"
  "detectionEnabled (commit b s) = detectionEnabled s"
  "facesData (commit b s) = facesData s"
  "displayMode (commit b s) = displayMode s"
  "showDetails (commit b s) = showDetails s"
  "webcam_video (commit b s) = webcam_video s"
  "canvas_el (commit b s) = canvas_el s"
  "inflight (commit b s) = inflight s"
  "loading (commit b s) = loading s"
  "console (commit b s) = console s"
  by (simp_all add: commit_def effect_body_def effect_cleanup_def setInterval_def
      clearInterval_def Let_def split: option.splits)

lemma commit_no_interval:
  "intervals s = [] \<Longrightarrow> \<not> (isModelLoaded s \<and> detectionEnabled s) \<Longrightarrow> intervals (commit b s) = []"
  by (auto simp: commit_def effect_body_def effect_cleanup_def clearInterval_def
      split: option.splits)

lemma start_frame:
  "isModelLoaded (detectFaces_start cl s) = isModelLoaded s"
  "facesDetected (detectFaces_start cl s) = facesDetected s"
  "detectionEnabled (detectFaces_start cl s) = detectionEnabled s"
  "facesData (detectFaces_start cl s) = facesData s"
  "intervals (detectFaces_start cl s) = intervals s"
  "detectionInterval (detectFaces_start cl s) = detectionInterval s"
  "loading (detectFaces_start cl s) = loading s"
  "console (detectFaces_start cl s) = console s"
  by (simp_all add: detectFaces_start_def Let_def split: option.splits)

lemma resume_frame:
  "isModelLoaded (detectFaces_resume resize cy out s) = isModelLoaded s"
  "detectionEnabled (detectFaces_resume resize cy out s) = detectionEnabled s"
  "intervals (detectFaces_resume resize cy out s) = intervals s"
  "detectionInterval (detectFaces_resume resize cy out s) = detectionInterval s"
  "inflight (detectFaces_resume resize cy out s) = inflight s"
  "loading (detectFaces_resume resize cy out s) = loading s"
  by (simp_all add: detectFaces_resume_def Let_def split: sum.splits)

subsection \<open>The armed interval is the one the ref holds\<close>

lemma owned_cleanup: "owned s \<Longrightarrow> intervals (effect_cleanup s) = []"
  by (auto simp: owned_def effect_cleanup_def clearInterval_def list_all_iff filter_empty_conv
      split: option.splits)

lemma owned_commit: "owned s \<Longrightarrow> owned (commit b s)"
proof (cases "deps s \<noteq> deps b")
  case False
  assume "owned s"
  with False show ?thesis by (simp add: commit_def)
next
  case True
  assume "owned s"
  then have "intervals (effect_cleanup s) = []" by (rule owned_cleanup)
  then have "owned (effect_body (effect_cleanup s))"
    by (simp add: owned_def effect_body_def setInterval_def clearInterval_def Let_def
        split: option.splits)
  with True show ?thesis by (simp add: commit_def)
qed

lemma owned_fields:
  "intervals t = intervals s \<Longrightarrow> detectionInterval t = detectionInterval s \<Longrightarrow> owned t = owned s"
  by (simp add: owned_def)

lemma owned_step: "owned s \<Longrightarrow> owned (step resize s e)"
proof (cases e)
  case (ModelsSettled l)
  assume o: "owned s"
  then have "owned (s\<lparr> loading := False \<rparr>)" by (simp add: owned_def)
  moreover have "owned (commit b (u\<lparr> isModelLoaded := True, console := k \<rparr>))" if "owned u" for b u k
    using that by (intro owned_commit) (simp add: owned_def)
  ultimately show ?thesis
    using o ModelsSettled by (simp add: loadModels_def owned_def split: option.splits)
next
  case (Tick h)
  assume "owned s"
  with Tick show ?thesis
    by (simp add: owned_fields [OF start_frame(5) start_frame(6)] split: list.splits)
next
  case (DetectionSettled k out)
  assume "owned s"
  then have "owned (s\<lparr> inflight := take k (inflight s) @ drop (Suc k) (inflight s) \<rparr>)"
    by (simp add: owned_def)
  with \<open>owned s\<close> DetectionSettled show ?thesis
    by (simp add: owned_fields [OF resume_frame(3) resume_frame(4)])
next
  case ToggleDetection
  assume "owned s"
  then have "owned (s\<lparr> detectionEnabled := \<not> detectionEnabled s \<rparr>)" by (simp add: owned_def)
  with ToggleDetection show ?thesis by (simp add: owned_commit)
next
  case (SelectMode m)
  assume "owned s"
  then have "owned (s\<lparr> displayMode := m \<rparr>)" by (simp add: owned_def)
  with SelectMode show ?thesis by (simp add: owned_commit)
next
  case ToggleDetails
  assume "owned s"
  then have "owned (s\<lparr> showDetails := \<not> showDetails s \<rparr>)" by (simp add: owned_def)
  with ToggleDetails show ?thesis by (simp add: owned_commit)
qed

lemma owned_run: "owned s \<Longrightarrow> owned (run resize s es)"
  by (induction es arbitrary: s) (simp_all add: run_Nil run_Cons owned_step)

lemma owned_mounted: "owned (mounted v c)"
  by (simp add: owned_def mounted_def initial_def effect_body_def)


subsection \<open>While detection is off\<close>

lemma subseq_remove_nth: "subseq (take k xs @ drop (Suc k) xs) xs"
proof (cases "k < length xs")
  case True
  then have "xs = take k xs @ xs ! k # drop (Suc k) xs"
    by (rule id_take_nth_drop)
  moreover have "subseq (drop (Suc k) xs) (xs ! k # drop (Suc k) xs)"
    by (rule list_emb_Cons) simp
  then have "subseq (take k xs @ drop (Suc k) xs) (take k xs @ xs ! k # drop (Suc k) xs)"
    by (simp only: subseq_append')
  ultimately show ?thesis by simp
next
  case False
  then show ?thesis by simp
qed

lemma paused_step:
  assumes "\<not> detectionEnabled s" "intervals s = []" "e \<noteq> ToggleDetection"
  shows "\<not> detectionEnabled (step resize s e) \<and> intervals (step resize s e) = []
         \<and> subseq (inflight (step resize s e)) (inflight s)
         \<and> (inflight s = [] \<or> \<not> is_DetectionSettled e \<longrightarrow> same_published s (step resize s e))"
proof (cases e)
  case (ModelsSettled l)
  with assms show ?thesis
    by (auto simp: loadModels_def commit_frame same_published_def
        intro!: commit_no_interval split: option.splits)
next
  case (Tick h)
  with assms show ?thesis by (simp add: same_published_def)
next
  case (DetectionSettled k out)
  with assms show ?thesis
    by (auto simp: resume_frame same_published_def subseq_remove_nth)
next
  case ToggleDetection
  with assms show ?thesis by simp
next
  case (SelectMode m)
  with assms show ?thesis
    by (auto simp: commit_frame same_published_def intro!: commit_no_interval)
next
  case ToggleDetails
  with assms show ?thesis
    by (auto simp: commit_frame same_published_def intro!: commit_no_interval)
qed

lemma same_published_refl: "same_published s s"
  by (simp add: same_published_def)

lemma same_published_trans: "same_published s t \<Longrightarrow> same_published t u \<Longrightarrow> same_published s u"
  by (simp add: same_published_def)

lemma paused_run:
  assumes "\<not> detectionEnabled s" "intervals s = []" "list_all (\<lambda>e. e \<noteq> ToggleDetection) es"
  shows "\<not> detectionEnabled (run resize s es) \<and> intervals (run resize s es) = []
         \<and> subseq (inflight (run resize s es)) (inflight s)
         \<and> (inflight s = [] \<or> list_all (\<lambda>e. \<not> is_DetectionSettled e) es \<longrightarrow>
               same_published s (run resize s es))"
  using assms
proof (induction es arbitrary: s)
  case Nil
  then show ?case by (simp add: run_Nil same_published_refl)
next
  case (Cons e es)
  from Cons.prems have e: "e \<noteq> ToggleDetection" and es: "list_all (\<lambda>e. e \<noteq> ToggleDetection) es"
    by simp_all
  note st = paused_step [OF Cons.prems(1) Cons.prems(2) e, of resize]
  from st have p1: "\<not> detectionEnabled (step resize s e)" and p2: "intervals (step resize s e) = []"
    by simp_all
  note ih = Cons.IH [OF p1 p2 es]
  have sub: "subseq (inflight (run resize (step resize s e) es)) (inflight s)"
    using st ih by (blast intro: subseq_order.order_trans)
  have pub: "same_published s (run resize (step resize s e) es)"
    if "inflight s = [] \<or> list_all (\<lambda>e. \<not> is_DetectionSettled e) (e # es)"
  proof -
    from that st have 1: "same_published s (step resize s e)" by auto
    from that st have "inflight (step resize s e) = [] \<or> list_all (\<lambda>e. \<not> is_DetectionSettled e) es"
      by auto
    with ih have "same_published (step resize s e) (run resize (step resize s e) es)" by blast
    with 1 show ?thesis by (rule same_published_trans)
  qed
  from ih sub pub show ?case
    unfolding run_Cons by blast
qed

subsection \<open>While the models are not loaded\<close>

lemma earliest_in: "earliest p qs \<in> set (p # qs)"
  by (induction qs arbitrary: p) auto

lemma Promise_all_None: "Promise_all ps = None \<longleftrightarrow> list_all (\<lambda>p. rejected_with p = None) ps"
proof (cases "filter (\<lambda>p. rejected_with p \<noteq> None) ps")
  case Nil
  then show ?thesis
    by (auto simp: Promise_all_def list_all_iff filter_empty_conv)
next
  case (Cons r rs)
  have "earliest r rs \<in> set (filter (\<lambda>p. rejected_with p \<noteq> None) ps)"
    using earliest_in [of r rs] Cons by simp
  then have "rejected_with (earliest r rs) \<noteq> None" by simp
  moreover have "r \<in> set (filter (\<lambda>p. rejected_with p \<noteq> None) ps)"
    using Cons by simp
  then have "\<not> list_all (\<lambda>p. rejected_with p = None) ps"
    by (auto simp: list_all_iff)
  ultimately show ?thesis
    using Cons by (simp add: Promise_all_def)
qed

lemma loadModels_cases:
  "all_loaded l \<Longrightarrow>
     loadModels l s =
       commit s (s\<lparr> isModelLoaded := True, console := console s @ [ConsoleLog msg_models_loaded] \<rparr>)"
  "\<not> all_loaded l \<Longrightarrow>
     \<exists>err. loadModels l s = s\<lparr> console := console s @ [ConsoleError msg_models_failed err] \<rparr>"
  using Promise_all_None
          [of "[tinyFaceDetector l, faceLandmark68Net l, faceRecognitionNet l,
                faceExpressionNet l, ageGenderNet l]"]
  by (auto simp: loadModels_def all_loaded_def split: option.splits)

lemma idle_step:
  assumes "idle s" "\<not> (is_ModelsSettled e \<and> loading s)"
  shows "idle (step resize s e) \<and> same_published s (step resize s e)
         \<and> loading (step resize s e) = loading s
         \<and> set (console s) \<subseteq> set (console (step resize s e))"
proof (cases e)
  case (ModelsSettled l)
  with assms show ?thesis by (simp add: same_published_def)
next
  case (Tick h)
  with assms show ?thesis by (simp add: idle_def same_published_def)
next
  case (DetectionSettled k out)
  with assms show ?thesis by (simp add: idle_def same_published_def)
next
  case ToggleDetection
  with assms show ?thesis
    by (auto simp: idle_def commit_frame same_published_def intro!: commit_no_interval)
next
  case (SelectMode m)
  with assms show ?thesis
    by (auto simp: idle_def commit_frame same_published_def intro!: commit_no_interval)
next
  case ToggleDetails
  with assms show ?thesis
    by (auto simp: idle_def commit_frame same_published_def intro!: commit_no_interval)
qed

lemma idle_run:
  assumes "idle s" "list_all (\<lambda>e. \<not> is_ModelsSettled e) es \<or> \<not> loading s"
  shows "idle (run resize s es) \<and> same_published s (run resize s es)
         \<and> loading (run resize s es) = loading s
         \<and> set (console s) \<subseteq> set (console (run resize s es))"
  using assms
proof (induction es arbitrary: s)
  case Nil
  then show ?case by (simp add: run_Nil same_published_refl)
next
  case (Cons e es)
  from Cons.prems(2) have e: "\<not> (is_ModelsSettled e \<and> loading s)" by auto
  note st = idle_step [OF Cons.prems(1) e, of resize]
  from st Cons.prems(2)
  have rest: "list_all (\<lambda>e. \<not> is_ModelsSettled e) es \<or> \<not> loading (step resize s e)"
    by auto
  from st have "idle (step resize s e)" by simp
  note ih = Cons.IH [OF this rest]
  show ?case
    unfolding run_Cons using st ih
    by (auto intro: same_published_trans)
qed

lemma failed_load_step:
  assumes "idle s" "loading s" "\<not> all_loaded l"
  shows "idle (step resize s (ModelsSettled l)) \<and> same_published s (step resize s (ModelsSettled l))
         \<and> \<not> loading (step resize s (ModelsSettled l))
         \<and> (\<exists>err. ConsoleError msg_models_failed err \<in> set (console (step resize s (ModelsSettled l))))"
proof -
  from loadModels_cases(2) [OF assms(3), of "s\<lparr> loading := False \<rparr>"]
  obtain err where
    "loadModels l (s\<lparr> loading := False \<rparr>) =
       s\<lparr> loading := False, console := console s @ [ConsoleError msg_models_failed err] \<rparr>"
    by auto
  with assms(1,2) show ?thesis
    by (auto simp: idle_def same_published_def)
qed

lemma idle_mounted:
  "idle (mounted v c)" "loading (mounted v c)" "facesDetected (mounted v c) = 0"
  "facesData (mounted v c) = []" "canvas_el (mounted v c) = c"
  by (simp_all add: idle_def mounted_def initial_def effect_body_def)

lemma becomes_loaded:
  assumes "\<not> isModelLoaded s" "isModelLoaded (step resize s e)"
  shows "\<exists>l. e = ModelsSettled l \<and> all_loaded l"
proof (cases e)
  case (ModelsSettled l)
  show ?thesis
  proof (cases "all_loaded l")
    case True
    with ModelsSettled show ?thesis by simp
  next
    case False
    from loadModels_cases(2) [OF False, of "s\<lparr> loading := False \<rparr>"] assms ModelsSettled
    show ?thesis by (auto split: if_splits)
  qed
next
  case (Tick h)
  with assms show ?thesis by (simp add: start_frame split: list.splits)
next
  case (DetectionSettled k out)
  with assms show ?thesis by (simp add: resume_frame split: if_splits)
next
  case ToggleDetection
  with assms show ?thesis by (simp add: commit_frame)
next
  case (SelectMode m)
  with assms show ?thesis by (simp add: commit_frame)
next
  case ToggleDetails
  with assms show ?thesis by (simp add: commit_frame)
qed

lemma loaded_needs_loads:
  "\<not> isModelLoaded s \<Longrightarrow> isModelLoaded (run resize s es) \<Longrightarrow>
     \<exists>l. ModelsSettled l \<in> set es \<and> all_loaded l"
proof (induction es arbitrary: s)
  case Nil
  then show ?case by (simp add: run_Nil)
next
  case (Cons e es)
  show ?case
  proof (cases "isModelLoaded (step resize s e)")
    case True
    from becomes_loaded [OF Cons.prems(1) True] show ?thesis by auto
  next
    case False
    from Cons.IH [OF False] Cons.prems(2) show ?thesis by (auto simp: run_Cons)
  qed
qed

subsection \<open>An interval is armed only while the models are loaded and detection is on\<close>

lemma commit_armed:
  assumes "owned u"
    and "deps u = deps b \<Longrightarrow> \<not> (isModelLoaded u \<and> detectionEnabled u) \<longrightarrow> intervals u = []"
  shows "\<not> (isModelLoaded (commit b u) \<and> detectionEnabled (commit b u)) \<longrightarrow>
           intervals (commit b u) = []"
proof (cases "deps u = deps b")
  case True
  with assms(2) show ?thesis by (simp add: commit_def)
next
  case False
  from assms(1) have "intervals (effect_cleanup u) = []" by (rule owned_cleanup)
  then have "\<not> (isModelLoaded u \<and> detectionEnabled u) \<longrightarrow>
      intervals (effect_body (effect_cleanup u)) = []"
    by (simp add: effect_body_def effect_cleanup_def clearInterval_def split: option.splits)
  with False show ?thesis
    by (simp add: commit_frame) (simp add: commit_def)
qed

lemma armed_step:
  assumes "owned s" "\<not> (isModelLoaded s \<and> detectionEnabled s) \<longrightarrow> intervals s = []"
  shows "\<not> (isModelLoaded (step resize s e) \<and> detectionEnabled (step resize s e)) \<longrightarrow>
           intervals (step resize s e) = []"
proof (cases e)
  case (ModelsSettled l)
  show ?thesis
  proof (cases "loading s \<and> all_loaded l")
    case True
    define u where
      "u = s\<lparr> loading := False, isModelLoaded := True,
              console := console s @ [ConsoleLog msg_models_loaded] \<rparr>"
    have "owned u" using assms(1) by (simp add: owned_def u_def)
    moreover have "\<not> (isModelLoaded u \<and> detectionEnabled u) \<longrightarrow> intervals u = []"
      if "deps u = deps (s\<lparr> loading := False \<rparr>)"
      using that assms(2) by (simp add: deps_def u_def)
    ultimately have "\<not> (isModelLoaded (commit (s\<lparr> loading := False \<rparr>) u)
           \<and> detectionEnabled (commit (s\<lparr> loading := False \<rparr>) u)) \<longrightarrow>
         intervals (commit (s\<lparr> loading := False \<rparr>) u) = []"
      by (rule commit_armed)
    with True ModelsSettled show ?thesis
      by (simp add: loadModels_cases(1) u_def)
  next
    case False
    show ?thesis
    proof (cases "loading s")
      case l: True
      with False have "\<not> all_loaded l" by simp
      from loadModels_cases(2) [OF this, of "s\<lparr> loading := False \<rparr>"] l ModelsSettled assms(2)
      show ?thesis by auto
    next
      case False
      with ModelsSettled assms(2) show ?thesis by simp
    qed
  qed
next
  case (Tick h)
  with assms(2) show ?thesis by (simp add: start_frame split: list.splits)
next
  case (DetectionSettled k out)
  with assms(2) show ?thesis by (simp add: resume_frame)
next
  case ToggleDetection
  define u where "u = s\<lparr> detectionEnabled := \<not> detectionEnabled s \<rparr>"
  have o: "owned u"
    using assms(1) by (simp add: owned_def u_def)
  have ne: "deps u \<noteq> deps s"
    by (simp add: deps_def u_def)
  have "\<not> (isModelLoaded (commit s u) \<and> detectionEnabled (commit s u)) \<longrightarrow>
          intervals (commit s u) = []"
    by (rule commit_armed [OF o]) (simp add: ne)
  with ToggleDetection show ?thesis
    by (simp only: step.simps u_def)
next
  case (SelectMode m)
  define u where "u = s\<lparr> displayMode := m \<rparr>"
  have o: "owned u"
    using assms(1) by (simp add: owned_def u_def)
  have "\<not> (isModelLoaded (commit s u) \<and> detectionEnabled (commit s u)) \<longrightarrow>
          intervals (commit s u) = []"
    by (rule commit_armed [OF o]) (use assms(2) in \<open>simp add: u_def\<close>)
  with SelectMode show ?thesis
    by (simp only: step.simps u_def)
next
  case ToggleDetails
  define u where "u = s\<lparr> showDetails := \<not> showDetails s \<rparr>"
  have o: "owned u"
    using assms(1) by (simp add: owned_def u_def)
  have "\<not> (isModelLoaded (commit s u) \<and> detectionEnabled (commit s u)) \<longrightarrow>
          intervals (commit s u) = []"
    by (rule commit_armed [OF o]) (use assms(2) in \<open>simp add: u_def\<close>)
  with ToggleDetails show ?thesis
    by (simp only: step.simps u_def)
qed

lemma armed_run:
  assumes "owned s" "\<not> (isModelLoaded s \<and> detectionEnabled s) \<longrightarrow> intervals s = []"
  shows "\<not> (isModelLoaded (run resize s es) \<and> detectionEnabled (run resize s es)) \<longrightarrow>
           intervals (run resize s es) = []"
  using assms
proof (induction es arbitrary: s)
  case Nil
  then show ?case by (simp add: run_Nil)
next
  case (Cons e es)
  from Cons.IH [OF owned_step [OF Cons.prems(1)] armed_step [OF Cons.prems]]
  show ?case by (simp add: run_Cons)
qed

lemma armed_reachable:
  "\<not> (isModelLoaded (run resize (mounted v c) es) \<and> detectionEnabled (run resize (mounted v c) es))
     \<longrightarrow> intervals (run resize (mounted v c) es) = []"
  by (rule armed_run [OF owned_mounted]) (simp add: mounted_def initial_def effect_body_def)

subsection \<open>A cycle whose guard fails\<close>

text \<open>
  Claim C4. When the video element or the canvas is missing, or the models are not
  loaded, or detection is disabled, a call of \<open>detectFaces\<close> returns at its guard and
  leaves the whole state as it was: nothing is published, nothing is drawn, nothing is
  logged and no call stays suspended. In every state the mounted component can reach, a
  timer that fires while the video element or the canvas is missing, the models are not
  loaded or detection is off changes nothing.
\<close>

theorem failed_precondition_is_noop:
  "(webcam_video s = None \<or> canvas_el s = None \<or> \<not> cl_isModelLoaded cl \<or> \<not> cl_detectionEnabled cl
      \<longrightarrow> detectFaces_start cl s = s \<and> detectFaces resize cl outcome s = s)
   \<and> (webcam_video (run resize (mounted v c) es) = None
       \<or> canvas_el (run resize (mounted v c) es) = None
       \<or> \<not> isModelLoaded (run resize (mounted v c) es)
       \<or> \<not> detectionEnabled (run resize (mounted v c) es)
      \<longrightarrow> step resize (run resize (mounted v c) es) (Tick h) = run resize (mounted v c) es)"
proof -
  have call: "detectFaces_start cl s = s \<and> detectFaces resize cl outcome s = s"
    if "webcam_video s = None \<or> canvas_el s = None \<or> \<not> cl_isModelLoaded cl \<or> \<not> cl_detectionEnabled cl"
    using that by (auto simp: detectFaces_def detectFaces_start_def split: option.splits)
  define t where "t = run resize (mounted v c) es"
  have tick: "step resize t (Tick h) = t"
    if "webcam_video t = None \<or> canvas_el t = None \<or> \<not> isModelLoaded t \<or> \<not> detectionEnabled t"
  proof (cases "webcam_video t = None \<or> canvas_el t = None")
    case True
    then show ?thesis
      by (auto simp: detectFaces_start_def split: option.splits list.splits)
  next
    case False
    with that armed_reachable [of resize v c es] have "intervals t = []"
      by (auto simp: t_def)
    then show ?thesis by simp
  qed
  from call tick show ?thesis
    unfolding t_def by blast
qed

theorem failed_precondition_is_noop_witness:
  "webcam_video (mounted None (Some example_canvas)) = None
   \<and> detectFaces same_size
        \<lparr> cl_isModelLoaded = True, cl_detectionEnabled = True, cl_displayMode = Mesh,
          cl_showDetails = True \<rparr>
        (Inr [example_detection])
        (mounted None (Some example_canvas)) = mounted None (Some example_canvas)
   \<and> \<not> detectionEnabled (run same_size (mounted (Some example_video) (Some example_canvas))
                            [ModelsSettled loads_ok, ToggleDetection])
   \<and> step same_size
        (run same_size (mounted (Some example_video) (Some example_canvas))
           [ModelsSettled loads_ok, ToggleDetection]) (Tick 1)
       = run same_size (mounted (Some example_video) (Some example_canvas))
           [ModelsSettled loads_ok, ToggleDetection]"
proof -
  have h1: "webcam_video (mounted None (Some example_canvas)) = None"
    by (simp add: mounted_def initial_def effect_body_def)
  have h2: "\<not> detectionEnabled (run same_size (mounted (Some example_video) (Some example_canvas))
                            [ModelsSettled loads_ok, ToggleDetection])"
    by (simp add: component_defs loads_ok_def)
  note thm1 = failed_precondition_is_noop [of "mounted None (Some example_canvas)" _ same_size]
  note thm2 = failed_precondition_is_noop
    [of _ _ same_size _ "Some example_video" "Some example_canvas"
        "[ModelsSettled loads_ok, ToggleDetection]" 1]
  from h1 h2 thm1 thm2 show ?thesis by blast
qed

subsection \<open>Model loading\<close>

text \<open>
  Claim C8. The component becomes ready only through a settlement of \<open>loadModels\<close> in which
  all five loads were fulfilled, and it does become ready then. When instead one of the
  five loads is rejected, the failure is logged and, whatever happens afterwards, the
  component is never ready: no interval is armed, no call of \<open>detectFaces\<close> is ever
  suspended at the adapter, a firing timer changes nothing, and the published count,
  records and canvas stay as they were at mount.
\<close>

theorem readiness_needs_all_five_loads:
  "(isModelLoaded (run resize (mounted v c) es) \<longrightarrow>
      (\<exists>l. ModelsSettled l \<in> set es \<and> all_loaded l))
   \<and> (list_all (\<lambda>e. \<not> is_ModelsSettled e) es1 \<and> all_loaded l \<longrightarrow>
        isModelLoaded (run resize (mounted v c) (es1 @ [ModelsSettled l])))
   \<and> (list_all (\<lambda>e. \<not> is_ModelsSettled e) es1 \<and> \<not> all_loaded l \<longrightarrow>
        (let t = run resize (mounted v c) (es1 @ ModelsSettled l # es2)
         in (\<exists>err. ConsoleError msg_models_failed err \<in> set (console t))
            \<and> \<not> isModelLoaded t \<and> intervals t = [] \<and> inflight t = []
            \<and> step resize t (Tick h) = t
            \<and> facesDetected t = 0 \<and> facesData t = [] \<and> canvas_el t = c))"
proof -
  have only: "\<exists>l. ModelsSettled l \<in> set es \<and> all_loaded l"
    if "isModelLoaded (run resize (mounted v c) es)"
    using loaded_needs_loads [OF _ that] idle_mounted(1) [of v c] by (simp add: idle_def)
  define s1 where "s1 = run resize (mounted v c) es1"
  have phase1: "idle s1 \<and> same_published (mounted v c) s1 \<and> loading s1"
    if "list_all (\<lambda>e. \<not> is_ModelsSettled e) es1"
    using idle_run [OF idle_mounted(1), of es1 v c resize] that idle_mounted(2) [of v c]
    by (simp add: s1_def)
  have ready: "isModelLoaded (run resize (mounted v c) (es1 @ [ModelsSettled l]))"
    if "list_all (\<lambda>e. \<not> is_ModelsSettled e) es1" "all_loaded l"
  proof -
    from phase1 [OF that(1)] have "loading s1" by simp
    then have "isModelLoaded (step resize s1 (ModelsSettled l))"
      by (simp add: loadModels_cases(1) [OF that(2)] commit_frame)
    then show ?thesis
      by (simp add: run_append run_Cons run_Nil s1_def)
  qed
  have never: "(\<exists>err. ConsoleError msg_models_failed err \<in> set (console t))
            \<and> \<not> isModelLoaded t \<and> intervals t = [] \<and> inflight t = []
            \<and> step resize t (Tick h) = t
            \<and> facesDetected t = 0 \<and> facesData t = [] \<and> canvas_el t = c"
    if "list_all (\<lambda>e. \<not> is_ModelsSettled e) es1" "\<not> all_loaded l"
      and t: "t = run resize (mounted v c) (es1 @ ModelsSettled l # es2)" for t
  proof -
    define s2 where "s2 = step resize s1 (ModelsSettled l)"
    from phase1 [OF that(1)]
    have 1: "idle s1" "same_published (mounted v c) s1" "loading s1" by simp_all
    from failed_load_step [OF 1(1) 1(3) that(2), of resize]
    have 2: "idle s2" "same_published s1 s2" "\<not> loading s2"
      "\<exists>err. ConsoleError msg_models_failed err \<in> set (console s2)"
      by (simp_all add: s2_def)
    have t': "t = run resize s2 es2"
      by (simp add: t run_append run_Cons s1_def s2_def)
    from idle_run [OF 2(1), of es2 resize] 2(3)
    have 3: "idle t" "same_published s2 t" "set (console s2) \<subseteq> set (console t)"
      by (simp_all add: t')
    from 1(2) 2(2) 3(2) have "same_published (mounted v c) t"
      by (blast intro: same_published_trans)
    then have pub: "facesDetected t = 0" "facesData t = []" "canvas_el t = c"
      by (simp_all add: same_published_def idle_mounted)
    from 3(1) have quiet: "\<not> isModelLoaded t" "intervals t = []" "inflight t = []"
      by (simp_all add: idle_def)
    from quiet(2) have tick: "step resize t (Tick h) = t" by simp
    from 2(4) 3(3) have "\<exists>err. ConsoleError msg_models_failed err \<in> set (console t)"
      by blast
    with pub quiet tick show ?thesis by simp
  qed
  from only ready never show ?thesis
    by (simp only: Let_def) blast
qed

theorem readiness_needs_all_five_loads_witness:
  "isModelLoaded (run same_size (mounted (Some example_video) (Some example_canvas))
                    [ToggleDetails, ModelsSettled loads_ok])
   \<and> (\<exists>l. ModelsSettled l \<in> set [ToggleDetails, ModelsSettled loads_ok] \<and> all_loaded l)
   \<and> list_all (\<lambda>e. \<not> is_ModelsSettled e) [ToggleDetails]
   \<and> all_loaded loads_ok
   \<and> \<not> all_loaded loads_failing
   \<and> \<not> isModelLoaded (run same_size (mounted (Some example_video) (Some example_canvas))
                        ([ToggleDetails] @ ModelsSettled loads_failing #
                           [Tick 1, ToggleDetection, ToggleDetection, Tick 1]))
   \<and> facesData (run same_size (mounted (Some example_video) (Some example_canvas))
                  ([ToggleDetails] @ ModelsSettled loads_failing #
                     [Tick 1, ToggleDetection, ToggleDetection, Tick 1])) = []
   \<and> inflight (run same_size (mounted (Some example_video) (Some example_canvas))
                 ([ToggleDetails] @ ModelsSettled loads_failing #
                    [Tick 1, ToggleDetection, ToggleDetection, Tick 1])) = []"
proof -
  have h1: "list_all (\<lambda>e. \<not> is_ModelsSettled e) [ToggleDetails]" by simp
  have h2: "all_loaded loads_ok" by (simp add: all_loaded_def loads_ok_def)
  have h3: "\<not> all_loaded loads_failing" by (simp add: all_loaded_def loads_failing_def loads_ok_def)
  note thm1 = readiness_needs_all_five_loads
    [of same_size "Some example_video" "Some example_canvas"
        "[ToggleDetails, ModelsSettled loads_ok]" "[ToggleDetails]" loads_ok]
  note thm2 = readiness_needs_all_five_loads
    [of same_size "Some example_video" "Some example_canvas" "[]" "[ToggleDetails]" loads_failing
        "[Tick 1, ToggleDetection, ToggleDetection, Tick 1]" 1]
  from thm1 h1 h2
  have a: "isModelLoaded (run same_size (mounted (Some example_video) (Some example_canvas))
                    [ToggleDetails, ModelsSettled loads_ok])"
    by simp
  with thm1 have b: "\<exists>l. ModelsSettled l \<in> set [ToggleDetails, ModelsSettled loads_ok] \<and> all_loaded l"
    by blast
  from thm2 h1 h3 a b h2 show ?thesis
    by (simp only: Let_def) blast
qed

subsection \<open>Pausing detection\<close>

lemma toggle_off:
  assumes "owned s" "detectionEnabled s"
  shows "\<not> detectionEnabled (step resize s ToggleDetection)
         \<and> intervals (step resize s ToggleDetection) = []"
proof -
  define s1 where "s1 = s\<lparr> detectionEnabled := False \<rparr>"
  from assms(1) have "owned s1" by (simp add: owned_def s1_def)
  then have "intervals (effect_cleanup s1) = []" by (rule owned_cleanup)
  moreover have "\<not> detectionEnabled (effect_cleanup s1)"
    by (simp add: effect_cleanup_def clearInterval_def s1_def split: option.splits)
  ultimately have "intervals (effect_body (effect_cleanup s1)) = []"
    by (simp add: effect_body_def clearInterval_def split: option.splits)
  moreover have "deps s1 \<noteq> deps s"
    using assms(2) by (simp add: deps_def s1_def)
  ultimately show ?thesis
    using assms(2) by (simp add: commit_frame s1_def [symmetric]) (simp add: commit_def s1_def)
qed

text \<open>
  Claim C9, as stated, fails: with the models loaded and the interval fired once, the
  call of \<open>detectFaces\<close> is suspended at the adapter; the user then turns detection off,
  which cancels the interval; when the adapter's promise resolves afterwards, the
  suspended call still publishes its count and its records.
\<close>

theorem pause_with_cycle_in_flight_counterexample:
  "detectionEnabled example_started
   \<and> \<not> detectionEnabled (step same_size example_started ToggleDetection)
   \<and> intervals (step same_size example_started ToggleDetection) = []
   \<and> facesDetected (step same_size example_started ToggleDetection) = 0
   \<and> facesData (step same_size example_started ToggleDetection) = []
   \<and> facesDetected (run same_size (step same_size example_started ToggleDetection)
                      [DetectionSettled 0 (Inr [example_detection])]) = 1
   \<and> facesData (run same_size (step same_size example_started ToggleDetection)
                   [DetectionSettled 0 (Inr [example_detection])]) = [toFaceData example_detection]"
  by (simp add: example_started_eval component_defs)

text \<open>
  Claim C9, amended. Turning detection off in a state the mounted component can reach
  cancels the armed interval. From then on, as long as detection is not turned on again,
  no interval is armed, a firing timer changes nothing and no new call of \<open>detectFaces\<close>
  gets suspended at the adapter: the suspended calls are among those that were awaiting
  the adapter when detection was turned off. The published count, the published records
  and the canvas change only when one of these resumes: if there was none, or as long as
  none has resumed, they are as they were when detection was turned off.
\<close>

theorem pausing_stops_new_cycles:
  "detectionEnabled (run resize (mounted v c) es) \<longrightarrow>
     (let s' = step resize (run resize (mounted v c) es) ToggleDetection;
          t = run resize s' es'
      in \<not> detectionEnabled s' \<and> intervals s' = []
         \<and> (list_all (\<lambda>e. e \<noteq> ToggleDetection) es' \<longrightarrow>
              \<not> detectionEnabled t \<and> intervals t = []
              \<and> step resize t (Tick h) = t
              \<and> subseq (inflight t) (inflight s')
              \<and> (inflight s' = [] \<or> list_all (\<lambda>e. \<not> is_DetectionSettled e) es' \<longrightarrow>
                    facesDetected t = facesDetected s'
                    \<and> facesData t = facesData s' \<and> canvas_el t = canvas_el s')))"
proof
  assume en: "detectionEnabled (run resize (mounted v c) es)"
  define s' where "s' = step resize (run resize (mounted v c) es) ToggleDetection"
  define t where "t = run resize s' es'"
  have "owned (run resize (mounted v c) es)"
    by (rule owned_run [OF owned_mounted])
  from toggle_off [OF this en, of resize]
  have off: "\<not> detectionEnabled s'" "intervals s' = []"
    by (simp_all add: s'_def)
  have later: "\<not> detectionEnabled t \<and> intervals t = []
              \<and> step resize t (Tick h) = t
              \<and> subseq (inflight t) (inflight s')
              \<and> (inflight s' = [] \<or> list_all (\<lambda>e. \<not> is_DetectionSettled e) es' \<longrightarrow>
                    facesDetected t = facesDetected s'
                    \<and> facesData t = facesData s' \<and> canvas_el t = canvas_el s')"
    if "list_all (\<lambda>e. e \<noteq> ToggleDetection) es'"
  proof -
    note p = paused_run [OF off that, of resize, folded t_def]
    from p have "intervals t = []" by simp
    then have "step resize t (Tick h) = t" by simp
    with p show ?thesis by (simp add: same_published_def)
  qed
  from off later
  show "let s' = step resize (run resize (mounted v c) es) ToggleDetection;
          t = run resize s' es'
      in \<not> detectionEnabled s' \<and> intervals s' = []
         \<and> (list_all (\<lambda>e. e \<noteq> ToggleDetection) es' \<longrightarrow>
              \<not> detectionEnabled t \<and> intervals t = []
              \<and> step resize t (Tick h) = t
              \<and> subseq (inflight t) (inflight s')
              \<and> (inflight s' = [] \<or> list_all (\<lambda>e. \<not> is_DetectionSettled e) es' \<longrightarrow>
                    facesDetected t = facesDetected s'
                    \<and> facesData t = facesData s' \<and> canvas_el t = canvas_el s'))"
    unfolding Let_def s'_def [symmetric] t_def [symmetric] by blast
qed

theorem pausing_stops_new_cycles_witness:
  "detectionEnabled (run same_size (mounted (Some example_video) (Some example_canvas))
                       [ModelsSettled loads_ok])
   \<and> list_all (\<lambda>e. e \<noteq> ToggleDetection) [Tick 1, SelectMode Mesh, Tick 1]
   \<and> inflight (step same_size
                 (run same_size (mounted (Some example_video) (Some example_canvas))
                    [ModelsSettled loads_ok]) ToggleDetection) = []
   \<and> facesData (run same_size
                  (step same_size
                     (run same_size (mounted (Some example_video) (Some example_canvas))
                        [ModelsSettled loads_ok]) ToggleDetection)
                  [Tick 1, SelectMode Mesh, Tick 1])
       = facesData (step same_size
                      (run same_size (mounted (Some example_video) (Some example_canvas))
                         [ModelsSettled loads_ok]) ToggleDetection)
   \<and> intervals (run same_size
                  (step same_size
                     (run same_size (mounted (Some example_video) (Some example_canvas))
                        [ModelsSettled loads_ok]) ToggleDetection)
                  [Tick 1, SelectMode Mesh, Tick 1]) = []"
proof -
  have h1: "detectionEnabled (run same_size (mounted (Some example_video) (Some example_canvas))
                       [ModelsSettled loads_ok])"
    by (simp add: component_defs loads_ok_def)
  have h2: "list_all (\<lambda>e. e \<noteq> ToggleDetection) [Tick 1, SelectMode Mesh, Tick 1]"
    by simp
  have h3: "inflight (step same_size
                 (run same_size (mounted (Some example_video) (Some example_canvas))
                    [ModelsSettled loads_ok]) ToggleDetection) = []"
    by (simp add: component_defs loads_ok_def)
  note inst = pausing_stops_new_cycles
      [of same_size "Some example_video" "Some example_canvas" "[ModelsSettled loads_ok]"
          "[Tick 1, SelectMode Mesh, Tick 1]" 1, unfolded Let_def]
  from h1 h2 h3 inst show ?thesis by blast
qed


subsection \<open>A cycle whose detection fails\<close>

lemma since_reset_after:
  assumes "is_reset x" "list_all (\<lambda>c. \<not> is_reset c) ys"
  shows "since_reset (xs @ x # ys) = ys"
proof -
  have "takeWhile (\<lambda>c. \<not> is_reset c) (rev ys @ x # rev xs) =
          rev ys @ takeWhile (\<lambda>c. \<not> is_reset c) (x # rev xs)"
    using assms(2) by (intro takeWhile_append2) (simp add: list_all_iff)
  with assms(1) show ?thesis by (simp add: since_reset_def)
qed

lemma no_reset_in_overlay: "list_all (\<lambda>c. \<not> is_reset c) (overlay_calls m sd c rs fds)"
  by (auto simp: list_all_iff overlay_calls_def mesh_calls_def details_calls_def Let_def
      split: display_mode.splits if_splits)

lemma example_shown_eval:
  "example_shown =
     example_started
       \<lparr> facesDetected := 1,
         facesData := [toFaceData example_detection],
         canvas_el := Some ((matchDimensions example_canvas (640, 360))
           \<lparr> calls := [SetWidth 640, SetHeight 360] @
                overlay_calls Landmarks True (matchDimensions example_canvas (640, 360))
                  [example_detection] [toFaceData example_detection] \<rparr>),
         inflight := [] \<rparr>"
  by (simp add: example_shown_def run_def example_started_eval detectFaces_resume_def Let_def
      same_size_def matchDimensions_def example_canvas_def)

lemma example_failed_eval:
  "canvas_el example_failed =
     Some ((matchDimensions example_canvas (640, 360))
       \<lparr> calls := ([SetWidth 640, SetHeight 360] @
            overlay_calls Landmarks True (matchDimensions example_canvas (640, 360))
              [example_detection] [toFaceData example_detection]) @
            [SetWidth 640, SetHeight 360] \<rparr>)"
  "facesData example_failed = [toFaceData example_detection]"
  "facesDetected example_failed = 1"
  by (simp_all add: example_failed_def run_def example_shown_eval example_started_eval
      detectFaces_start_def detectFaces_resume_def Let_def matchDimensions_def
      example_canvas_def example_video_def)

text \<open>
  Claim C2, as stated, fails in its last part. After a successful cycle the canvas shows
  that cycle's overlay. In the next cycle \<open>matchDimensions\<close> assigns the canvas's width
  and height before the adapter is called, which resets the canvas; the adapter's call
  then fails, nothing is drawn, and the canvas shows nothing, while the published count
  and records are still those of the successful cycle.
\<close>

theorem failed_cycle_blanks_overlay_counterexample:
  "visible_calls example_shown =
     Some (overlay_calls Landmarks True (matchDimensions example_canvas (640, 360))
             [example_detection] [toFaceData example_detection])
   \<and> DrawDetections [example_detection] \<in>
       set (overlay_calls Landmarks True (matchDimensions example_canvas (640, 360))
              [example_detection] [toFaceData example_detection])
   \<and> visible_calls example_failed = Some []
   \<and> facesData example_failed = facesData example_shown
   \<and> facesDetected example_failed = facesDetected example_shown"
proof -
  have shown: "visible_calls example_shown =
     Some (overlay_calls Landmarks True (matchDimensions example_canvas (640, 360))
             [example_detection] [toFaceData example_detection])"
    using since_reset_after [OF _ no_reset_in_overlay, of "SetHeight 360" "[SetWidth 640]"]
    by (simp add: visible_calls_def example_shown_eval)
  have box: "DrawDetections [example_detection] \<in>
       set (overlay_calls Landmarks True (matchDimensions example_canvas (640, 360))
              [example_detection] [toFaceData example_detection])"
    by (simp add: overlay_calls_def Let_def)
  have failed: "visible_calls example_failed = Some []"
    by (simp add: visible_calls_def example_failed_eval since_reset_def)
  have same: "facesData example_failed = facesData example_shown"
    "facesDetected example_failed = facesDetected example_shown"
    by (simp_all add: example_failed_eval example_shown_eval)
  from shown box failed same show ?thesis by simp
qed

text \<open>
  Claim C2, amended. When the adapter's call of a cycle fails, the rest of \<open>detectFaces\<close>
  only logs the error: the state is otherwise the one it found. Over the whole cycle the
  published face count and records are unchanged, and so is everything the component
  renders from them; no drawing call is made. The one effect on the canvas is that of
  \<open>matchDimensions\<close>, made before the adapter was called: its width and height are
  assigned. The same holds for the component when a suspended call resumes with a
  failure.
\<close>

theorem failed_detection_keeps_published_state:
  "detectFaces_resume resize cy (Inl err) s =
     s\<lparr> console := console s @ [ConsoleError msg_detection_failed err] \<rparr>
   \<and> facesDetected (detectFaces resize cl (Inl err) s) = facesDetected s
   \<and> facesData (detectFaces resize cl (Inl err) s) = facesData s
   \<and> render (detectFaces resize cl (Inl err) s) = render s
   \<and> (webcam_video s = Some v \<and> canvas_el s = Some c \<and> cl_isModelLoaded cl \<and> cl_detectionEnabled cl
        \<longrightarrow> detectFaces resize cl (Inl err) s =
              s\<lparr> canvas_el :=
                    Some (c\<lparr> canvas_width := video_width v, canvas_height := video_height v,
                            calls := calls c @ [SetWidth (video_width v), SetHeight (video_height v)] \<rparr>),
                 console := console s @ [ConsoleError msg_detection_failed err] \<rparr>)
   \<and> (k < length (inflight s) \<longrightarrow>
        (let t = step resize s (DetectionSettled k (Inl err))
         in facesDetected t = facesDetected s \<and> facesData t = facesData s
            \<and> canvas_el t = canvas_el s \<and> render t = render s
            \<and> console t = console s @ [ConsoleError msg_detection_failed err]))"
  by (auto simp: detectFaces_def detectFaces_resume_def detectFaces_start_def render_def
      matchDimensions_def Let_def split: option.splits)

theorem failed_detection_keeps_published_state_witness:
  "webcam_video example_shown = Some example_video
   \<and> canvas_el example_shown =
       Some ((matchDimensions example_canvas (640, 360))
         \<lparr> calls := [SetWidth 640, SetHeight 360] @
              overlay_calls Landmarks True (matchDimensions example_canvas (640, 360))
                [example_detection] [toFaceData example_detection] \<rparr>)
   \<and> facesData
        (detectFaces same_size
           \<lparr> cl_isModelLoaded = True, cl_detectionEnabled = True, cl_displayMode = Landmarks,
             cl_showDetails = True \<rparr>
           (Inl (Error ''inference failed'')) example_shown)
       = [toFaceData example_detection]
   \<and> 0 < length (inflight example_started)
   \<and> facesData (step same_size example_started (DetectionSettled 0 (Inl (Error ''inference failed''))))
       = facesData example_started
   \<and> canvas_el (step same_size example_started (DetectionSettled 0 (Inl (Error ''inference failed''))))
       = canvas_el example_started"
proof -
  have h1: "webcam_video example_shown = Some example_video"
    "canvas_el example_shown =
       Some ((matchDimensions example_canvas (640, 360))
         \<lparr> calls := [SetWidth 640, SetHeight 360] @
              overlay_calls Landmarks True (matchDimensions example_canvas (640, 360))
                [example_detection] [toFaceData example_detection] \<rparr>)"
    "facesData example_shown = [toFaceData example_detection]"
    by (simp_all add: example_shown_eval example_started_eval)
  have h2: "0 < length (inflight example_started)"
    by (simp add: example_started_eval)
  note thm1 = failed_detection_keeps_published_state
    [of same_size _ "Error ''inference failed''" example_shown
        "\<lparr> cl_isModelLoaded = True, cl_detectionEnabled = True, cl_displayMode = Landmarks,
           cl_showDetails = True \<rparr>"]
  note thm2 = failed_detection_keeps_published_state
    [of same_size _ "Error ''inference failed''" example_started _ _ _ 0]
  from h1 h2 thm1 thm2 show ?thesis
    by (simp only: Let_def)
qed


end
